theory Spec2Isabelle
  imports Main
begin

section \<open>Errors, bytes and 64-bit integers\<close>

text \<open>
  The model follows \<^verbatim>\<open>parse.go\<close> of package \<^verbatim>\<open>id3v2\<close>. Bytes are \<^typ>\<open>char\<close>
  (8 bits), a Go \<^verbatim>\<open>string\<close> or \<^verbatim>\<open>[]byte\<close> is a \<^typ>\<open>char list\<close>.

  Errors are values. The constructors carry the names the specification gives to the error
  kinds; the Go messages are
  \<^item> \<open>NilSource\<close>: "Invalid file: file is nil";
  \<^item> \<open>HeaderParseError e\<close>: "Trying to parse tag header: " followed by the text of \<open>e\<close>;
  \<^item> \<open>UnsupportedVersion\<close>: "Unsupported version of ID3 tag";
  \<^item> \<open>TruncatedFrameHeader\<close>: "Size of frame header is less than expected";
  \<^item> \<open>EINVAL\<close>: what \<^verbatim>\<open>Seek\<close> reports for a negative offset;
  \<^item> \<open>EIO\<close>: a read error of the operating system;
  \<^item> \<open>EOF\<close>: \<^verbatim>\<open>io.EOF\<close>;
  \<^item> \<open>TruncatedTagHeader\<close>: a structural failure while reading the 10-byte tag header;
  \<^item> \<open>DecodeError n\<close>: an error returned by a frame decoder;
  \<^item> \<open>IndexOutOfRange\<close>: the run-time panic of \<^verbatim>\<open>id[0]\<close> on an empty string.
\<close>

type_synonym byte = char

datatype error =
    NilSource
  | HeaderParseError error
  | UnsupportedVersion
  | TruncatedFrameHeader
  | EINVAL
  | EIO
  | EOF
  | TruncatedTagHeader
  | DecodeError nat
  | IndexOutOfRange

text \<open>
  Positions and sizes are Go \<^verbatim>\<open>int64\<close>. They are modelled as \<^typ>\<open>int\<close>, and every addition
  the code performs is wrapped by \<open>int64\<close> (two's complement, 64 bits).
\<close>

definition int64 :: "int \<Rightarrow> int" where
  "int64 x = (x + 2 ^ 63) mod 2 ^ 64 - 2 ^ 63"

definition frameHeaderSize :: int where
  "frameHeaderSize = 10"

text \<open>
  Modelled from the spec: the constant \<^verbatim>\<open>tagHeaderSize\<close> is declared outside
  \<^verbatim>\<open>parse.go\<close>; the specification fixes the container header at 10 bytes.
\<close>

definition tagHeaderSize :: int where
  "tagHeaderSize = 10"

text \<open>
  Modelled from the spec: \<^verbatim>\<open>util.ParseSize\<close> (the Size Codec) is not part of
  \<^verbatim>\<open>parse.go\<close>. The specification: each byte's low 7 bits are one base-128 digit,
  most significant byte first; there is no error path.
\<close>

definition ParseSize :: "byte list \<Rightarrow> int" where
  "ParseSize data = foldl (\<lambda>size b. size * 128 + int (of_char b mod 128)) 0 data"

section \<open>The byte source\<close>

text \<open>
  An \<^verbatim>\<open>*os.File\<close> over a regular file: its bytes, the shared read position, the offsets
  at which the device reports a read error, and a log of the read calls that reached the
  file, each with the position it started at and the number of bytes it delivered.
  The log is what the claims about "reading" are stated on.
\<close>

record os_File =
  content :: "byte list"
  offset :: int
  ioerr :: "nat \<Rightarrow> bool"
  reads :: "(nat \<times> nat) list"

text \<open>\<^verbatim>\<open>f.Seek(pos, os.SEEK_SET)\<close>: a negative position is refused, any other is accepted
  (also one past the end of the file).\<close>

definition file_Seek :: "int \<Rightarrow> os_File \<Rightarrow> error + os_File" where
  "file_Seek pos f = (if pos < 0 then Inl EINVAL else Inr (f\<lparr>offset := pos\<rparr>))"

text \<open>\<^verbatim>\<open>f.Read(p)\<close> with \<open>len(p) = n\<close>: the bytes delivered and the error, and the file
  afterwards.\<close>

definition file_Read :: "nat \<Rightarrow> os_File \<Rightarrow> (byte list \<times> error option) \<times> os_File" where
  "file_Read n f =
     (let pos = nat (offset f) in
      if n = 0 then (([], None), f\<lparr>reads := reads f @ [(pos, 0)]\<rparr>)
      else if ioerr f pos then (([], Some EIO), f\<lparr>reads := reads f @ [(pos, 0)]\<rparr>)
      else if length (content f) \<le> pos then (([], Some EOF), f\<lparr>reads := reads f @ [(pos, 0)]\<rparr>)
      else
        let bs = take n (drop pos (content f)) in
        ((bs, None), f\<lparr>offset := offset f + int (length bs),
                         reads := reads f @ [(pos, length bs)]\<rparr>))"

text \<open>\<^verbatim>\<open>io.LimitedReader\<close>: reads from \<open>R\<close> but stops with \<open>EOF\<close> after \<open>N\<close> bytes.\<close>

record LimitedReader =
  R :: os_File
  N :: int

definition LimitedReader_Read ::
  "nat \<Rightarrow> LimitedReader \<Rightarrow> (byte list \<times> error option) \<times> LimitedReader" where
  "LimitedReader_Read n l =
     (if N l \<le> 0 then (([], Some EOF), l)
      else
        let n' = (if N l < int n then nat (N l) else n);
            (res, f) = file_Read n' (R l)
        in (res, \<lparr>R = f, N = N l - int (length (fst res))\<rparr>))"

text \<open>
  \<^verbatim>\<open>fhBuf.ReadFrom(limitedRd)\<close>, the \<^verbatim>\<open>ReadFrom\<close> of \<^verbatim>\<open>bytes.Buffer\<close>, on an empty buffer
  taken from the pool: it calls \<^verbatim>\<open>Read\<close> on the reader again and again, each time with room
  for at least \<^verbatim>\<open>bytes.MinRead\<close> bytes, and appends what it gets, until \<^verbatim>\<open>Read\<close> reports
  an error. \<open>EOF\<close> ends the transfer without an error, any other error is returned. The
  result is the buffer's content and the file afterwards.
\<close>

definition MinRead :: nat where
  "MinRead = 512"

function ReadFrom_loop :: "LimitedReader \<Rightarrow> byte list \<Rightarrow> (error + byte list) \<times> os_File" where
  "ReadFrom_loop l buf =
     (case LimitedReader_Read MinRead l of
        ((bs, None), l') \<Rightarrow> ReadFrom_loop l' (buf @ bs)
      | ((bs, Some err), l') \<Rightarrow>
          (if err = EOF then (Inr (buf @ bs), R l') else (Inl err, R l')))"
  by pat_completeness auto

lemma LimitedReader_Read_progress:
  "LimitedReader_Read MinRead l = ((bs, None), l') \<Longrightarrow> 0 \<le> N l' \<and> N l' < N l"
  by (auto simp: LimitedReader_Read_def file_Read_def Let_def MinRead_def
      split: if_splits prod.splits)

termination ReadFrom_loop
proof (relation "measure (\<lambda>(l, buf). nat (N l))", goal_cases)
  case 1
  show ?case by simp
next
  case (2 l buf res l' bs err)
  then have "LimitedReader_Read MinRead l = ((bs, None), l')" by simp
  from LimitedReader_Read_progress [OF this] show ?case by simp
qed

declare ReadFrom_loop.simps [simp del]

definition ReadFrom :: "LimitedReader \<Rightarrow> (error + byte list) \<times> os_File" where
  "ReadFrom l = ReadFrom_loop l []"

section \<open>Frame decoders\<close>

text \<open>
  The decoders \<^verbatim>\<open>parseTextFrame\<close>, \<^verbatim>\<open>parsePictureFrame\<close>, \<^verbatim>\<open>parseCommentFrame\<close> and
  \<^verbatim>\<open>parseUnsynchronisedLyricsFrame\<close> are declared outside \<^verbatim>\<open>parse.go\<close>: each is a
  \<^verbatim>\<open>func(io.Reader) (Framer, error)\<close>. A decoder is taken as an arbitrary program over its
  reader: it either returns, or asks the reader for up to \<open>n\<close> bytes and goes on with what
  \<^verbatim>\<open>Read\<close> returned. \<open>run_decoder\<close> runs it against a limited reader.
\<close>

datatype 'a prog = Return 'a | ReadReq nat "byte list \<times> error option \<Rightarrow> 'a prog"

type_synonym 'fr decoder = "(error + 'fr) prog"

primrec run_decoder :: "'a prog \<Rightarrow> LimitedReader \<Rightarrow> 'a \<times> LimitedReader" where
  "run_decoder (Return a) l = (a, l)"
| "run_decoder (ReadReq n k) l =
     (let (res, l') = LimitedReader_Read n l in run_decoder (k res) l')"

datatype parseFunc =
  parseTextFrame | parsePictureFrame | parseCommentFrame | parseUnsynchronisedLyricsFrame

section \<open>The tag\<close>

text \<open>
  Names follow \<^verbatim>\<open>parse.go\<close>. Two could not be kept: the field \<^verbatim>\<open>file\<close> of a tag is
  \<open>tag_file\<close> (\<open>file\<close> is a keyword of Isabelle), and an identifier argument \<^verbatim>\<open>id\<close> is
  \<open>fid\<close> (\<open>id\<close> is the identity function of HOL).
\<close>

record frameHeader =
  ID :: string
  FrameSize :: int

record frameCoordinates =
  Len :: int
  Pos :: int

text \<open>
  Modelled from the spec: the tag header type and \<^verbatim>\<open>parseHeader\<close> are declared outside
  \<^verbatim>\<open>parse.go\<close>. \<^verbatim>\<open>parse.go\<close> uses the fields \<open>Version\<close> (a byte) and \<open>FramesSize\<close>.
\<close>

record tagHeader =
  Version :: nat
  FramesSize :: int

text \<open>An ID table maps a frame's name to its identifier; a Go map returns the empty
  string for a name it does not hold.\<close>

type_synonym idTable = "string \<Rightarrow> string"

text \<open>
  Modelled from the spec: the type \<^verbatim>\<open>Tag\<close> is declared outside \<^verbatim>\<open>parse.go\<close>. Its fields
  are those \<^verbatim>\<open>newTag\<close> sets. The decoded frame store (the Go maps \<^verbatim>\<open>frames\<close> and
  \<^verbatim>\<open>sequences\<close>, both created empty by \<^verbatim>\<open>newTag\<close> and filled by \<^verbatim>\<open>AddFrame\<close> only) is
  one mapping from an identifier to the decoded values in the order they were added, as the
  specification describes it.
\<close>

record 'fr Tag =
  framesCoords :: "string \<rightharpoonup> frameCoordinates list"
  frames :: "string \<rightharpoonup> 'fr list"
  tag_file :: os_File
  originalSize :: int
  version :: nat
  ids :: idTable

text \<open>The package variables \<^verbatim>\<open>V23IDs\<close> and \<^verbatim>\<open>V24IDs\<close>, declared outside \<^verbatim>\<open>parse.go\<close>,
  are parameters of the model.\<close>

record globals =
  V23IDs :: idTable
  V24IDs :: idTable

definition newTag :: "globals \<Rightarrow> os_File \<Rightarrow> int \<Rightarrow> nat \<Rightarrow> 'fr Tag" where
  "newTag g file0 size0 version0 =
     \<lparr>framesCoords = Map.empty,
      frames = Map.empty,
      tag_file = file0,
      originalSize = size0,
      version = version0,
      ids = (if version0 = 3 then V23IDs g else V24IDs g)\<rparr>"

text \<open>Modelled from the spec: \<^verbatim>\<open>t.ID(name)\<close> is a pure lookup in the tag's ID table.\<close>

definition Tag_ID :: "'fr Tag \<Rightarrow> string \<Rightarrow> string" where
  "Tag_ID t name = ids t name"

text \<open>The sequence an identifier has in the index, and in the store; empty when the
  identifier is not a key.\<close>

definition coords_of :: "'fr Tag \<Rightarrow> string \<Rightarrow> frameCoordinates list" where
  "coords_of t fid = (case framesCoords t fid of None \<Rightarrow> [] | Some fcs \<Rightarrow> fcs)"

definition frames_of :: "'fr Tag \<Rightarrow> string \<Rightarrow> 'fr list" where
  "frames_of t fid = (case frames t fid of None \<Rightarrow> [] | Some frs \<Rightarrow> frs)"

text \<open>
  Modelled from the spec: \<^verbatim>\<open>t.AddFrame(id, f)\<close> is declared outside \<^verbatim>\<open>parse.go\<close>. The
  specification: the decoded value is appended to the decoded frame store under the
  identifier, preserving order.
\<close>

definition AddFrame :: "string \<Rightarrow> 'fr \<Rightarrow> 'fr Tag \<Rightarrow> 'fr Tag" where
  "AddFrame fid fr t = t\<lparr>frames := (frames t)(fid \<mapsto> frames_of t fid @ [fr])\<rparr>"

section \<open>Parsing the tag header\<close>

text \<open>
  Modelled from the spec: the 3-byte magic identifier is declared outside \<^verbatim>\<open>parse.go\<close>;
  the specification does not spell it out, the ID3v2 format fixes it.
\<close>

definition id3Identifier :: "byte list" where
  "id3Identifier = ''ID3''"

text \<open>
  Modelled from the spec: \<^verbatim>\<open>parseHeader\<close> is declared outside \<^verbatim>\<open>parse.go\<close>. The
  specification: it reads the 10 leading bytes, advancing the read position; when the
  3-byte magic identifier does not match it returns no header and no error; otherwise the
  version is byte 3 and the size of the frame region is the Size Codec's value of bytes 6
  to 9. A read error, or a header cut short after its magic identifier, is a failure
  while reading the fixed header.
\<close>

definition parseHeader :: "os_File \<Rightarrow> (error + tagHeader option) \<times> os_File" where
  "parseHeader rd =
     (case ReadFrom \<lparr>R = rd, N = tagHeaderSize\<rparr> of
        (Inl err, rd') \<Rightarrow> (Inl err, rd')
      | (Inr data, rd') \<Rightarrow>
          if take 3 data \<noteq> id3Identifier then (Inr None, rd')
          else if int (length data) < tagHeaderSize then (Inl TruncatedTagHeader, rd')
          else (Inr (Some \<lparr>Version = of_char (data ! 3),
                            FramesSize = ParseSize (take 4 (drop 6 data))\<rparr>), rd'))"

section \<open>The structural scan\<close>

definition parseFrameHeader :: "os_File \<Rightarrow> (error + frameHeader) \<times> os_File" where
  "parseFrameHeader rd =
     (case ReadFrom \<lparr>R = rd, N = frameHeaderSize\<rparr> of
        (Inl err, rd') \<Rightarrow> (Inl err, rd')
      | (Inr byteHeader, rd') \<Rightarrow>
          if int (length byteHeader) < frameHeaderSize then (Inl TruncatedFrameHeader, rd')
          else (Inr \<lparr>ID = take 4 byteHeader,
                      FrameSize = ParseSize (take 4 (drop 4 byteHeader))\<rparr>, rd'))"

lemma ParseSize_foldl_bounds:
  "0 \<le> a \<Longrightarrow>
   0 \<le> foldl (\<lambda>size b. size * 128 + int (of_char b mod 128)) a data \<and>
   foldl (\<lambda>size b. size * 128 + int (of_char b mod 128)) a data < (a + 1) * 128 ^ length data"
proof (induction data arbitrary: a)
  case Nil
  then show ?case by simp
next
  case (Cons b data)
  let ?d = "int (of_char b mod 128)"
  have d: "0 \<le> ?d" "?d < 128" by simp_all
  from Cons.prems d have a': "0 \<le> a * 128 + ?d" by simp
  from Cons.IH [OF a'] have
    lo: "0 \<le> foldl (\<lambda>size b. size * 128 + int (of_char b mod 128)) (a * 128 + ?d) data" and
    hi: "foldl (\<lambda>size b. size * 128 + int (of_char b mod 128)) (a * 128 + ?d) data
           < (a * 128 + ?d + 1) * 128 ^ length data"
    by simp_all
  have "a * 128 + ?d + 1 \<le> (a + 1) * 128" using d by simp
  then have "(a * 128 + ?d + 1) * 128 ^ length data \<le> (a + 1) * 128 * 128 ^ length data"
    by (intro mult_right_mono) simp_all
  with hi have "foldl (\<lambda>size b. size * 128 + int (of_char b mod 128)) (a * 128 + ?d) data
           < (a + 1) * 128 * 128 ^ length data"
    by (rule less_le_trans)
  moreover have "(a + 1) * 128 * 128 ^ length data = (a + 1) * 128 ^ length (b # data)"
    by simp
  ultimately have "foldl (\<lambda>size b. size * 128 + int (of_char b mod 128)) (a * 128 + ?d) data
           < (a + 1) * 128 ^ length (b # data)"
    by (simp only:)
  with lo show ?case by (simp only: foldl_Cons)
qed

lemma ParseSize_nonneg: "0 \<le> ParseSize data"
  using ParseSize_foldl_bounds [of 0 data] by (simp add: ParseSize_def)

lemma ParseSize_less: "length data \<le> 4 \<Longrightarrow> ParseSize data < 2 ^ 28"
proof -
  assume len: "length data \<le> 4"
  have "ParseSize data < 128 ^ length data"
    using ParseSize_foldl_bounds [of 0 data] by (simp add: ParseSize_def)
  also have "(128::int) ^ length data \<le> 128 ^ 4"
    using len by (intro power_increasing) simp_all
  finally show ?thesis by simp
qed

lemma parseFrameHeader_FrameSize:
  "parseFrameHeader rd = (Inr header, rd') \<Longrightarrow> 0 \<le> FrameSize header \<and> FrameSize header < 2 ^ 28"
  using ParseSize_less [of "take 4 (drop 4 bs)" for bs]
  by (auto simp: parseFrameHeader_def ParseSize_nonneg
      split: prod.splits sum.splits if_splits)

lemma int64_id: "- (2 ^ 63) \<le> x \<Longrightarrow> x < 2 ^ 63 \<Longrightarrow> int64 x = x"
  by (simp add: int64_def)

lemma int64_range: "- (2 ^ 63) \<le> int64 x \<and> int64 x < 2 ^ 63"
  by (simp add: int64_def)

lemma int64_wrap: "2 ^ 63 \<le> x \<Longrightarrow> x < 2 ^ 64 \<Longrightarrow> int64 x = x - 2 ^ 64"
proof -
  assume a: "2 ^ 63 \<le> x" "x < 2 ^ 64"
  have "x + 2 ^ 63 = (x - 2 ^ 63) + 2 ^ 64"
    by simp
  then have "(x + 2 ^ 63) mod 2 ^ 64 = ((x - 2 ^ 63) + 2 ^ 64) mod 2 ^ 64"
    by (simp only:)
  also have "\<dots> = (x - 2 ^ 63) mod 2 ^ 64"
    by (rule mod_add_self2)
  also have "\<dots> = x - 2 ^ 63"
    using a by (intro mod_pos_pos_trivial) simp_all
  finally show ?thesis by (simp add: int64_def)
qed

text \<open>
  One iteration of the scan moves a cursor inside the \<^verbatim>\<open>int64\<close> range either forward or,
  when the addition wraps, to a negative position (where the next \<^verbatim>\<open>Seek\<close> fails).
\<close>

lemma cursor_advance:
  assumes "0 \<le> pos" "pos < 2 ^ 63" "0 \<le> sz" "sz < 2 ^ 28"
  shows "int64 (int64 (pos + frameHeaderSize) + sz) < 0 \<or>
         pos + 10 \<le> int64 (int64 (pos + frameHeaderSize) + sz)"
proof (cases "pos + 10 < 2 ^ 63")
  case True
  with assms have p1: "int64 (pos + frameHeaderSize) = pos + 10"
    by (simp add: frameHeaderSize_def int64_id)
  show ?thesis
  proof (cases "pos + 10 + sz < 2 ^ 63")
    case True
    with assms have "int64 (pos + 10 + sz) = pos + 10 + sz" by (simp add: int64_id)
    with p1 assms show ?thesis by simp
  next
    case False
    with assms have "int64 (pos + 10 + sz) = pos + 10 + sz - 2 ^ 64"
      by (intro int64_wrap) simp_all
    with p1 assms show ?thesis by simp
  qed
next
  case False
  with assms have p1: "int64 (pos + frameHeaderSize) = pos + 10 - 2 ^ 64"
    unfolding frameHeaderSize_def by (intro int64_wrap) simp_all
  with assms False have "int64 (pos + 10 - 2 ^ 64 + sz) = pos + 10 - 2 ^ 64 + sz"
    by (intro int64_id) simp_all
  with p1 assms show ?thesis by simp
qed

function findAllFrames_loop :: "int \<Rightarrow> int \<Rightarrow> 'fr Tag \<Rightarrow> 'fr Tag \<times> error option" where
  "findAllFrames_loop pos tagSize t =
     (if pos < tagSize then
        (case file_Seek pos (tag_file t) of
           Inl err \<Rightarrow> (t, Some err)
         | Inr f \<Rightarrow>
             (case parseFrameHeader f of
                (Inl err, f') \<Rightarrow> (t\<lparr>tag_file := f'\<rparr>, Some err)
              | (Inr header, f') \<Rightarrow>
                  let pos1 = int64 (pos + frameHeaderSize);
                      fc = \<lparr>Len = FrameSize header, Pos = pos1\<rparr>;
                      fcs = coords_of t (ID header);
                      t' = t\<lparr>tag_file := f',
                              framesCoords := (framesCoords t)(ID header \<mapsto> fcs @ [fc])\<rparr>
                  in findAllFrames_loop (int64 (pos1 + FrameSize header)) tagSize t'))
      else (t, None))"
  by pat_completeness auto

text \<open>
  The loop ends: a cursor inside the \<^verbatim>\<open>int64\<close> range moves forward in every iteration
  that reaches the recursive call, and a cursor that wrapped is negative and is refused by
  \<^verbatim>\<open>Seek\<close>.
\<close>

definition scan_measure :: "int \<Rightarrow> nat" where
  "scan_measure pos =
     (if pos < 0 then 0 else if 2 ^ 63 \<le> pos then 2 ^ 63 + 1 else nat (2 ^ 63 - pos))"

lemma scan_measure_decreases:
  assumes "0 \<le> pos" "0 \<le> sz" "sz < 2 ^ 28"
  shows "scan_measure (int64 (int64 (pos + frameHeaderSize) + sz)) < scan_measure pos"
proof (cases "pos < 2 ^ 63")
  case True
  from cursor_advance [OF assms(1) True assms(2,3)]
    int64_range [of "int64 (pos + frameHeaderSize) + sz"]
  show ?thesis using assms True by (auto simp: scan_measure_def)
next
  case False
  with int64_range [of "int64 (pos + frameHeaderSize) + sz"]
  show ?thesis using assms by (auto simp: scan_measure_def)
qed

termination findAllFrames_loop
proof (relation "measure (\<lambda>(pos, tagSize, t). scan_measure pos)", goal_cases)
  case 1
  show ?case by simp
next
  case (2 pos tagSize t f res f' header pos1 fc fcs t')
  from 2(2) have "0 \<le> pos" by (simp add: file_Seek_def split: if_splits)
  moreover from 2(3,4) have "0 \<le> FrameSize header \<and> FrameSize header < 2 ^ 28"
    using parseFrameHeader_FrameSize [of f header f'] by simp
  ultimately show ?case using 2(5) by (simp add: scan_measure_decreases)
qed

declare findAllFrames_loop.simps [simp del]

definition findAllFrames :: "'fr Tag \<Rightarrow> 'fr Tag \<times> error option" where
  "findAllFrames t = findAllFrames_loop tagHeaderSize (originalSize t) t"

text \<open>
  The body of the loop of \<^verbatim>\<open>findAllFrames\<close> as a value: \<open>Inl\<close> holds the cursor and the tag
  the next iteration starts with, \<open>Inr\<close> what \<^verbatim>\<open>findAllFrames\<close> returns from inside the loop.
  \<open>findAllFrames_fuel n\<close> is the same loop stopped after \<open>n\<close> iterations: \<open>None\<close> says
  that \<open>n\<close> iterations did not end it.
\<close>

definition findAllFrames_body :: "int \<Rightarrow> 'fr Tag \<Rightarrow> (int \<times> 'fr Tag) + ('fr Tag \<times> error option)" where
  "findAllFrames_body pos t =
     (case file_Seek pos (tag_file t) of
        Inl err \<Rightarrow> Inr (t, Some err)
      | Inr f \<Rightarrow>
          (case parseFrameHeader f of
             (Inl err, f') \<Rightarrow> Inr (t\<lparr>tag_file := f'\<rparr>, Some err)
           | (Inr header, f') \<Rightarrow>
               let pos1 = int64 (pos + frameHeaderSize);
                   fc = \<lparr>Len = FrameSize header, Pos = pos1\<rparr>;
                   fcs = coords_of t (ID header);
                   t' = t\<lparr>tag_file := f',
                           framesCoords := (framesCoords t)(ID header \<mapsto> fcs @ [fc])\<rparr>
               in Inl (int64 (pos1 + FrameSize header), t')))"

fun findAllFrames_fuel :: "nat \<Rightarrow> int \<Rightarrow> int \<Rightarrow> 'fr Tag \<Rightarrow> ('fr Tag \<times> error option) option" where
  "findAllFrames_fuel 0 pos tagSize t = (if pos < tagSize then None else Some (t, None))"
| "findAllFrames_fuel (Suc n) pos tagSize t =
     (if pos < tagSize then
        (case findAllFrames_body pos t of
           Inl (pos', t') \<Rightarrow> findAllFrames_fuel n pos' tagSize t'
         | Inr r \<Rightarrow> Some r)
      else Some (t, None))"

section \<open>Opening a tag\<close>

text \<open>
  \<^verbatim>\<open>parseTag\<close> returns a Go pair \<^verbatim>\<open>(*Tag, error)\<close>: each component may be \<^verbatim>\<open>nil\<close>.
  The third component of the model's result is the file as the call leaves it.
\<close>

definition parseTag ::
  "globals \<Rightarrow> os_File option \<Rightarrow> 'fr Tag option \<times> error option \<times> os_File option" where
  "parseTag g file0 =
     (case file0 of
        None \<Rightarrow> (None, Some NilSource, None)
      | Some f \<Rightarrow>
          (case parseHeader f of
             (Inl err, f') \<Rightarrow> (None, Some (HeaderParseError err), Some f')
           | (Inr None, f') \<Rightarrow> (Some (newTag g f' 0 4), None, Some f')
           | (Inr (Some header), f') \<Rightarrow>
               if Version header < 3 then (None, Some UnsupportedVersion, Some f')
               else
                 let t = newTag g f' (int64 (tagHeaderSize + FramesSize header)) (Version header);
                     (t', err) = findAllFrames t
                 in (Some t', err, Some (tag_file t'))))"

section \<open>Lazy decoding\<close>

text \<open>
  \<^verbatim>\<open>findParseFunc\<close> returns one of four functions or \<^verbatim>\<open>nil\<close>. The functions are named by
  \<^typ>\<open>parseFunc\<close>; \<open>Inl\<close> is the run-time panic of \<^verbatim>\<open>id[0]\<close> on the empty string.
\<close>

definition findParseFunc :: "'fr Tag \<Rightarrow> string \<Rightarrow> error + parseFunc option" where
  "findParseFunc t fid =
     (case fid of
        [] \<Rightarrow> Inl IndexOutOfRange
      | c # _ \<Rightarrow>
          if c = CHR ''T'' then Inr (Some parseTextFrame)
          else if fid = Tag_ID t ''Attached picture'' then Inr (Some parsePictureFrame)
          else if fid = Tag_ID t ''Comments'' then Inr (Some parseCommentFrame)
          else if fid = Tag_ID t ''Unsynchronised lyrics/text transcription''
            then Inr (Some parseUnsynchronisedLyricsFrame)
          else Inr None)"

text \<open>
  \<^verbatim>\<open>readFrame\<close>: the result of \<^verbatim>\<open>Seek\<close> is not looked at, so after a refused \<^verbatim>\<open>Seek\<close> the
  file stays where it was. \<open>Inl err\<close> is \<^verbatim>\<open>panic(err)\<close>.
\<close>

definition readFrame :: "'fr decoder \<Rightarrow> os_File \<Rightarrow> frameCoordinates \<Rightarrow> (error + 'fr) \<times> os_File" where
  "readFrame parseFunc rs fc =
     (let rs' = (case file_Seek (Pos fc) rs of Inl err \<Rightarrow> rs | Inr f \<Rightarrow> f);
          rd = \<lparr>R = rs', N = Len fc\<rparr>;
          (res, rd') = run_decoder parseFunc rd
      in (res, R rd'))"

text \<open>
  The loop \<^verbatim>\<open>for _, fc := range fcs\<close> of \<^verbatim>\<open>parseFramesCoordsWithID\<close>. A panic leaves the
  tag as it is at that moment; the second component is the panic's value.
  \<open>impl\<close> gives the code of the four decoders.
\<close>

fun parseFramesCoordsWithID_loop ::
  "(parseFunc \<Rightarrow> 'fr decoder) \<Rightarrow> parseFunc \<Rightarrow> string \<Rightarrow> frameCoordinates list \<Rightarrow> 'fr Tag
     \<Rightarrow> 'fr Tag \<times> error option" where
  "parseFramesCoordsWithID_loop impl parseFunc fid [] t = (t, None)"
| "parseFramesCoordsWithID_loop impl parseFunc fid (fc # fcs) t =
     (case readFrame (impl parseFunc) (tag_file t) fc of
        (Inl err, f') \<Rightarrow> (t\<lparr>tag_file := f'\<rparr>, Some err)
      | (Inr fr, f') \<Rightarrow>
          parseFramesCoordsWithID_loop impl parseFunc fid fcs (AddFrame fid fr (t\<lparr>tag_file := f'\<rparr>)))"

definition parseFramesCoordsWithID ::
  "(parseFunc \<Rightarrow> 'fr decoder) \<Rightarrow> string \<Rightarrow> 'fr Tag \<Rightarrow> 'fr Tag \<times> error option" where
  "parseFramesCoordsWithID impl fid t =
     (case framesCoords t fid of
        None \<Rightarrow> (t, None)
      | Some fcs \<Rightarrow>
          (case findParseFunc t fid of
             Inl err \<Rightarrow> (t, Some err)
           | Inr None \<Rightarrow> (t\<lparr>framesCoords := (framesCoords t)(fid := None)\<rparr>, None)
           | Inr (Some parseFunc) \<Rightarrow>
               (case parseFramesCoordsWithID_loop impl parseFunc fid fcs t of
                  (t', Some err) \<Rightarrow> (t', Some err)
                | (t', None) \<Rightarrow> (t'\<lparr>framesCoords := (framesCoords t')(fid := None)\<rparr>, None))))"

text \<open>
  \<^verbatim>\<open>parseAllFramesCoords\<close> ranges over the keys of \<^verbatim>\<open>t.framesCoords\<close>. Go leaves the order
  of a map's keys open, so the order is the argument \<open>keys\<close>; a key deleted before the loop
  reaches it is not in the map any more, which \<^verbatim>\<open>parseFramesCoordsWithID\<close> checks first.
\<close>

fun parseAllFramesCoords ::
  "(parseFunc \<Rightarrow> 'fr decoder) \<Rightarrow> string list \<Rightarrow> 'fr Tag \<Rightarrow> 'fr Tag \<times> error option" where
  "parseAllFramesCoords impl [] t = (t, None)"
| "parseAllFramesCoords impl (fid # keys) t =
     (case parseFramesCoordsWithID impl fid t of
        (t', Some err) \<Rightarrow> (t', Some err)
      | (t', None) \<Rightarrow> parseAllFramesCoords impl keys t')"

section \<open>Properties of the scan that the claims are stated with\<close>

text \<open>
  \<open>payload_unread t\<close>: no read logged on the tag's file overlaps the payload range
  \<open>[Pos, Pos + Len)\<close> of a coordinate in the index. \<open>scan_inv pos t\<close> is the loop invariant
  of the scan at cursor \<open>pos\<close>: everything read and everything indexed ends at or before
  the cursor.
\<close>

definition payload_unread :: "'fr Tag \<Rightarrow> bool" where
  "payload_unread t \<longleftrightarrow>
     (\<forall>fid. \<forall>fc \<in> set (coords_of t fid). \<forall>(p, n) \<in> set (reads (tag_file t)).
        int p + int n \<le> Pos fc \<or> Pos fc + Len fc \<le> int p)"

definition scan_inv :: "int \<Rightarrow> 'fr Tag \<Rightarrow> bool" where
  "scan_inv pos t \<longleftrightarrow>
     (\<forall>(p, n) \<in> set (reads (tag_file t)). int p + int n \<le> pos) \<and>
     (\<forall>fid. \<forall>fc \<in> set (coords_of t fid). Pos fc + Len fc \<le> pos) \<and>
     payload_unread t"


text \<open>
  \<open>same_source f g\<close>: two states of a file with the same bytes and the same faulty
  offsets (position and log may differ). \<open>pending_resolved_disjoint t\<close>: no identifier is
  both in the index and in the decoded frame store.
\<close>

definition same_source :: "os_File \<Rightarrow> os_File \<Rightarrow> bool" where
  "same_source f g \<longleftrightarrow> content f = content g \<and> ioerr f = ioerr g"

definition pending_resolved_disjoint :: "'fr Tag \<Rightarrow> bool" where
  "pending_resolved_disjoint t \<longleftrightarrow> dom (framesCoords t) \<inter> dom (frames t) = {}"

text \<open>
  \<open>scan_bound pos tagSize\<close>: the number of 10-byte steps between the cursor and the tag end,
  rounded up; 0 when the loop does not read at \<open>pos\<close>.
\<close>

definition scan_bound :: "int \<Rightarrow> int \<Rightarrow> nat" where
  "scan_bound pos tagSize =
     (if 0 \<le> pos \<and> pos < tagSize then nat ((tagSize - pos + 9) div 10) else 0)"


section \<open>A sample file\<close>

text \<open>
  A tag of version 4 with the frames \<open>TIT2\<close> (6 bytes), \<open>COMM\<close> (4 bytes), \<open>COMM\<close>
  (4 bytes) and \<open>XXXX\<close> (2 bytes); the ID tables of both versions name \<open>APIC\<close>,
  \<open>COMM\<close> and \<open>USLT\<close>; a decoder that asks for 64 bytes at once and fails on an empty
  payload.
\<close>

definition sample_globals :: globals where
  "sample_globals = \<lparr>V23IDs = (\<lambda>name. if name = ''Attached picture'' then ''APIC''
       else if name = ''Comments'' then ''COMM''
       else if name = ''Unsynchronised lyrics/text transcription'' then ''USLT'' else ''''),
     V24IDs = (\<lambda>name. if name = ''Attached picture'' then ''APIC''
       else if name = ''Comments'' then ''COMM''
       else if name = ''Unsynchronised lyrics/text transcription'' then ''USLT'' else '''')\<rparr>"

definition sample_decoder :: "string decoder" where
  "sample_decoder = ReadReq 64 (\<lambda>(bs, err). if bs = [] then Return (Inl (DecodeError 0)) else Return (Inr bs))"

definition open_file :: "byte list \<Rightarrow> os_File" where
  "open_file bs = \<lparr>content = bs, offset = 0, ioerr = (\<lambda>_. False), reads = []\<rparr>"

definition sample_bytes :: "byte list" where
  "sample_bytes = ''ID3'' @ [CHR 0x04, CHR 0x00, CHR 0x00, CHR 0x00, CHR 0x00, CHR 0x00, CHR 0x38]
     @ ''TIT2'' @ [CHR 0x00, CHR 0x00, CHR 0x00, CHR 0x06, CHR 0x00, CHR 0x00] @ [CHR 0x00] @ ''Hello''
     @ ''COMM'' @ [CHR 0x00, CHR 0x00, CHR 0x00, CHR 0x04, CHR 0x00, CHR 0x00] @ ''eng1''
     @ ''COMM'' @ [CHR 0x00, CHR 0x00, CHR 0x00, CHR 0x04, CHR 0x00, CHR 0x00] @ ''deu2''
     @ ''XXXX'' @ [CHR 0x00, CHR 0x00, CHR 0x00, CHR 0x02, CHR 0x00, CHR 0x00] @ ''zz''"


definition sample_scan_start :: "string Tag" where
  "sample_scan_start =
     newTag sample_globals ((open_file sample_bytes)\<lparr>offset := 10, reads := [(0, 10)]\<rparr>) 66 4"


text \<open>
  Further files: a tag of version 5 with one frame, a tag of version 2, and a file that
  does not start with the magic identifier. \<open>sample_tag\<close> is the tag after the scan of the
  sample file.
\<close>

definition sample_v5_bytes :: "byte list" where
  "sample_v5_bytes =
     ''ID3'' @ [CHR 0x05, CHR 0x00, CHR 0x00, CHR 0x00, CHR 0x00, CHR 0x00, CHR 0x0D]
     @ ''TIT2'' @ [CHR 0x00, CHR 0x00, CHR 0x00, CHR 0x03, CHR 0x00, CHR 0x00] @ ''abc''"

definition sample_v5_scan_start :: "string Tag" where
  "sample_v5_scan_start =
     newTag sample_globals ((open_file sample_v5_bytes)\<lparr>offset := 10, reads := [(0, 10)]\<rparr>) 23 5"

definition sample_v2_bytes :: "byte list" where
  "sample_v2_bytes =
     ''ID3'' @ [CHR 0x02, CHR 0x00, CHR 0x00, CHR 0x00, CHR 0x00, CHR 0x00, CHR 0x0A]
     @ ''TT2'' @ [CHR 0x00, CHR 0x00, CHR 0x04, CHR 0x00] @ ''abc''"

definition sample_wav_bytes :: "byte list" where
  "sample_wav_bytes = ''RIFF'' @ [CHR 0x24, CHR 0x00, CHR 0x00, CHR 0x00] @ ''WAVEfmt ''"


definition sample_impl :: "parseFunc \<Rightarrow> string decoder" where
  "sample_impl parseFunc = sample_decoder"

definition sample_tag :: "string Tag" where
  "sample_tag = fst (findAllFrames_loop 10 66 sample_scan_start)"


text \<open>
  \<open>sample_scan_at_40\<close> is the state of the scan of the sample file when the cursor is at
  the second \<open>COMM\<close> header. \<open>sample_bad_bytes\<close> holds three \<open>TXXX\<close> frames of 3, 0 and 2
  bytes; the sample decoder fails on the second.
\<close>

definition sample_scan_at_40 :: "string Tag" where
  "sample_scan_at_40 =
     sample_scan_start
       \<lparr>tag_file := (tag_file sample_scan_start)
          \<lparr>offset := 36, reads := [(0, 10), (10, 10), (26, 10)]\<rparr>,
        framesCoords := [''TIT2'' \<mapsto> [\<lparr>Len = 6, Pos = 20\<rparr>], ''COMM'' \<mapsto> [\<lparr>Len = 4, Pos = 36\<rparr>]]\<rparr>"

definition sample_bad_bytes :: "byte list" where
  "sample_bad_bytes =
     ''ID3'' @ [CHR 0x04, CHR 0x00, CHR 0x00, CHR 0x00, CHR 0x00, CHR 0x00, CHR 0x23]
     @ ''TXXX'' @ [CHR 0x00, CHR 0x00, CHR 0x00, CHR 0x03, CHR 0x00, CHR 0x00] @ ''abc''
     @ ''TXXX'' @ [CHR 0x00, CHR 0x00, CHR 0x00, CHR 0x00, CHR 0x00, CHR 0x00]
     @ ''TXXX'' @ [CHR 0x00, CHR 0x00, CHR 0x00, CHR 0x02, CHR 0x00, CHR 0x00] @ ''zz''"

definition sample_bad_tag :: "string Tag" where
  "sample_bad_tag =
     fst (findAllFrames
       (newTag sample_globals ((open_file sample_bad_bytes)\<lparr>offset := 10, reads := [(0, 10)]\<rparr>)
          45 4))"

section \<open>Reading frame headers\<close>

lemma ReadFrom_loop_limit_reached:
  "N l \<le> 0 \<Longrightarrow> ReadFrom_loop l buf = (Inr buf, R l)"
  by (subst ReadFrom_loop.simps) (simp add: LimitedReader_Read_def)

lemma ReadFrom_loop_ioerr:
  assumes "0 < N l" "ioerr (R l) (nat (offset (R l)))"
  shows "ReadFrom_loop l buf =
    (Inl EIO, (R l)\<lparr>reads := reads (R l) @ [(nat (offset (R l)), 0)]\<rparr>)"
  using assms
  by (subst ReadFrom_loop.simps)
    (simp add: LimitedReader_Read_def file_Read_def Let_def MinRead_def)

lemma ReadFrom_loop_eof:
  assumes "0 < N l" "\<not> ioerr (R l) (nat (offset (R l)))"
    "length (content (R l)) \<le> nat (offset (R l))"
  shows "ReadFrom_loop l buf =
    (Inr buf, (R l)\<lparr>reads := reads (R l) @ [(nat (offset (R l)), 0)]\<rparr>)"
  using assms
  by (subst ReadFrom_loop.simps)
    (simp add: LimitedReader_Read_def file_Read_def Let_def MinRead_def)

lemma ReadFrom_loop_data:
  assumes "0 < N l" "N l \<le> 512" "\<not> ioerr (R l) (nat (offset (R l)))"
    "nat (offset (R l)) < length (content (R l))"
  shows "ReadFrom_loop l buf =
    (let bs = take (nat (N l)) (drop (nat (offset (R l))) (content (R l)))
     in ReadFrom_loop
          \<lparr>R = (R l)\<lparr>offset := offset (R l) + int (length bs),
                      reads := reads (R l) @ [(nat (offset (R l)), length bs)]\<rparr>,
           N = N l - int (length bs)\<rparr>
          (buf @ bs))"
  using assms
  by (subst ReadFrom_loop.simps)
    (simp add: LimitedReader_Read_def file_Read_def Let_def MinRead_def)

lemma ReadFrom_full:
  assumes "0 \<le> offset f" "0 < n" "n \<le> 512" "nat (offset f) + n \<le> length (content f)"
    "\<not> ioerr f (nat (offset f))"
  shows "ReadFrom \<lparr>R = f, N = int n\<rparr> =
    (Inr (take n (drop (nat (offset f)) (content f))),
     f\<lparr>offset := offset f + int n, reads := reads f @ [(nat (offset f), n)]\<rparr>)"
proof -
  have len: "length (take n (drop (nat (offset f)) (content f))) = n"
    using assms by simp
  show ?thesis
    unfolding ReadFrom_def
    using assms len
    by (subst ReadFrom_loop_data) (simp_all add: Let_def ReadFrom_loop_limit_reached)
qed

text \<open>A header cut short by the end of the file: the first read delivers the \<open>k\<close> bytes
  that are left, the second one finds the end of the file or a read error.\<close>

lemma ReadFrom_short:
  assumes "0 \<le> offset f" "0 < n" "n \<le> 512" "\<not> ioerr f (nat (offset f))"
    "nat (offset f) < length (content f)" "length (content f) < nat (offset f) + n"
  shows "ReadFrom \<lparr>R = f, N = int n\<rparr> =
    ((if ioerr f (length (content f)) then Inl EIO else Inr (drop (nat (offset f)) (content f))),
     f\<lparr>offset := int (length (content f)),
       reads := reads f @ [(nat (offset f), length (content f) - nat (offset f)),
                          (length (content f), 0)]\<rparr>)"
proof -
  let ?p = "nat (offset f)"
  let ?k = "length (content f) - ?p"
  have tk: "take n (drop ?p (content f)) = drop ?p (content f)"
    using assms by simp
  have off: "offset f + int ?k = int (length (content f))"
    using assms by simp
  let ?f1 = "f\<lparr>offset := int (length (content f)), reads := reads f @ [(?p, ?k)]\<rparr>"
  have 1: "ReadFrom \<lparr>R = f, N = int n\<rparr> =
      ReadFrom_loop \<lparr>R = ?f1, N = int n - int ?k\<rparr> (drop ?p (content f))"
    unfolding ReadFrom_def using assms
    by (subst ReadFrom_loop_data) (simp_all add: Let_def tk off)
  have n1: "0 < int n - int ?k" using assms by linarith
  show ?thesis
  proof (cases "ioerr f (length (content f))")
    case True
    then show ?thesis
      unfolding 1 using n1 by (subst ReadFrom_loop_ioerr) simp_all
  next
    case False
    then show ?thesis
      unfolding 1 using n1 by (subst ReadFrom_loop_eof) simp_all
  qed
qed

lemma ReadFrom_none:
  assumes "0 \<le> offset f" "0 < n"
    "ioerr f (nat (offset f)) \<or> length (content f) \<le> nat (offset f)"
  shows "ReadFrom \<lparr>R = f, N = int n\<rparr> =
    ((if ioerr f (nat (offset f)) then Inl EIO else Inr []),
     f\<lparr>reads := reads f @ [(nat (offset f), 0)]\<rparr>)"
proof (cases "ioerr f (nat (offset f))")
  case True
  then show ?thesis unfolding ReadFrom_def using assms
    by (subst ReadFrom_loop_ioerr) simp_all
next
  case False
  then show ?thesis unfolding ReadFrom_def using assms
    by (subst ReadFrom_loop_eof) simp_all
qed

lemma ReadFrom_loop_source:
  "ReadFrom_loop l buf = (res, f') \<Longrightarrow>
   content f' = content (R l) \<and> ioerr f' = ioerr (R l) \<and> (\<forall>e. res = Inl e \<longrightarrow> e = EIO)"
proof (induction l buf rule: ReadFrom_loop.induct)
  case (1 l buf)
  obtain bs eo l' where lr: "LimitedReader_Read MinRead l = ((bs, eo), l')"
    by (cases "LimitedReader_Read MinRead l") auto
  then have src: "content (R l') = content (R l)" "ioerr (R l') = ioerr (R l)"
    "eo = None \<or> eo = Some EOF \<or> eo = Some EIO"
    by (auto simp: LimitedReader_Read_def file_Read_def Let_def split: if_splits prod.splits)
  show ?case
  proof (cases eo)
    case None
    with "1.prems" lr have "ReadFrom_loop l' (buf @ bs) = (res, f')"
      by (subst (asm) ReadFrom_loop.simps) simp
    from "1.IH" [OF lr [symmetric] refl _ this] None src show ?thesis by simp
  next
    case (Some e)
    with "1.prems" lr src show ?thesis
      by (subst (asm) ReadFrom_loop.simps) (auto split: if_splits)
  qed
qed

lemma ReadFrom_effect:
  assumes "0 \<le> offset f" "0 < n" "n \<le> 512" "ReadFrom \<lparr>R = f, N = int n\<rparr> = (res, f')"
  shows "\<exists>new. reads f' = reads f @ new \<and>
    (\<forall>(p, k) \<in> set new. offset f \<le> int p \<and> int p + int k \<le> offset f + int n)"
proof -
  let ?p = "nat (offset f)"
  consider (none) "ioerr f ?p \<or> length (content f) \<le> ?p"
    | (full) "\<not> ioerr f ?p" "?p + n \<le> length (content f)"
    | (short) "\<not> ioerr f ?p" "?p < length (content f)" "length (content f) < ?p + n"
    by linarith
  then show ?thesis
  proof cases
    case none
    from ReadFrom_none [OF assms(1,2) none] assms(4)
    have "reads f' = reads f @ [(?p, 0)]" by auto
    with assms(1) show ?thesis by (intro exI [of _ "[(?p, 0)]"]) simp
  next
    case full
    from ReadFrom_full [OF assms(1,2,3) full(2,1)] assms(4)
    have "reads f' = reads f @ [(?p, n)]" by auto
    with assms(1) show ?thesis by (intro exI [of _ "[(?p, n)]"]) simp
  next
    case short
    let ?new = "[(?p, length (content f) - ?p), (length (content f), 0)]"
    from ReadFrom_short [OF assms(1,2,3) short] assms(4)
    have "reads f' = reads f @ ?new" by auto
    with assms(1) short show ?thesis by (intro exI [of _ ?new]) auto
  qed
qed

lemma parseFrameHeader_ok:
  assumes "0 \<le> offset f" "nat (offset f) + 10 \<le> length (content f)"
    "\<not> ioerr f (nat (offset f))"
  shows "parseFrameHeader f =
    (Inr \<lparr>ID = take 4 (drop (nat (offset f)) (content f)),
           FrameSize = ParseSize (take 4 (drop (nat (offset f) + 4) (content f)))\<rparr>,
     f\<lparr>offset := offset f + 10, reads := reads f @ [(nat (offset f), 10)]\<rparr>)"
proof -
  have "ReadFrom \<lparr>R = f, N = frameHeaderSize\<rparr> =
    (Inr (take 10 (drop (nat (offset f)) (content f))),
     f\<lparr>offset := offset f + 10, reads := reads f @ [(nat (offset f), 10)]\<rparr>)"
    using ReadFrom_full [of f 10] assms by (simp add: frameHeaderSize_def)
  then show ?thesis using assms
    by (simp add: parseFrameHeader_def frameHeaderSize_def take_drop add.commute)
qed

lemma findAllFrames_loop_done: "tagSize \<le> pos \<Longrightarrow> findAllFrames_loop pos tagSize t = (t, None)"
  by (subst findAllFrames_loop.simps) simp

lemma findAllFrames_loop_step:
  assumes "0 \<le> p" "p < tagSize" "tagSize \<le> 2 ^ 62"
    "nat p + 10 \<le> length (content (tag_file t))" "\<not> ioerr (tag_file t) (nat p)"
  shows "findAllFrames_loop p tagSize t =
    (let fid = take 4 (drop (nat p) (content (tag_file t)));
         len = ParseSize (take 4 (drop (nat p + 4) (content (tag_file t))))
     in findAllFrames_loop (p + 10 + len) tagSize
          (t\<lparr>tag_file := (tag_file t)\<lparr>offset := p + 10, reads := reads (tag_file t) @ [(nat p, 10)]\<rparr>,
             framesCoords := (framesCoords t)(fid \<mapsto> coords_of t fid @ [\<lparr>Len = len, Pos = p + 10\<rparr>])\<rparr>))"
proof -
  let ?f = "(tag_file t)\<lparr>offset := p\<rparr>"
  let ?len = "ParseSize (take 4 (drop (nat p + 4) (content (tag_file t))))"
  have seek: "file_Seek p (tag_file t) = Inr ?f"
    using assms(1) by (simp add: file_Seek_def)
  have hdr: "parseFrameHeader ?f =
    (Inr \<lparr>ID = take 4 (drop (nat p) (content (tag_file t))), FrameSize = ?len\<rparr>,
     ?f\<lparr>offset := p + 10, reads := reads (tag_file t) @ [(nat p, 10)]\<rparr>)"
    using parseFrameHeader_ok [of ?f] assms by simp
  have len: "0 \<le> ?len" "?len < 2 ^ 28"
    using ParseSize_less [of "take 4 (drop (nat p + 4) (content (tag_file t)))"]
    by (simp_all add: ParseSize_nonneg)
  have p1: "int64 (p + frameHeaderSize) = p + 10"
    using assms by (simp add: frameHeaderSize_def int64_id)
  have p2: "int64 (p + 10 + ?len) = p + 10 + ?len"
    using assms len by (intro int64_id) simp_all
  show ?thesis
    by (subst findAllFrames_loop.simps) (simp add: assms(2) seek hdr p1 p2 Let_def)
qed

lemma coords_of_upd:
  "coords_of (t\<lparr>tag_file := f, framesCoords := (framesCoords t)(fid \<mapsto> fcs)\<rparr>) fid' =
     (if fid' = fid then fcs else coords_of t fid')"
  by (simp add: coords_of_def)

lemma coords_of_tag_file [simp]: "coords_of (t\<lparr>tag_file := f\<rparr>) fid = coords_of t fid"
  by (simp add: coords_of_def)

lemma scan_inv_step:
  assumes "scan_inv pos t" "0 \<le> pos" "0 \<le> len"
  shows "scan_inv (pos + 10 + len)
     (t\<lparr>tag_file := (tag_file t)\<lparr>offset := off, reads := reads (tag_file t) @ [(nat pos, 10)]\<rparr>,
        framesCoords := (framesCoords t)(fid \<mapsto> coords_of t fid @ [\<lparr>Len = len, Pos = pos + 10\<rparr>])\<rparr>)"
  using assms unfolding scan_inv_def payload_unread_def coords_of_upd
  by (auto split: if_splits) force+

lemma scan_inv_fail:
  assumes "scan_inv pos t" "0 \<le> pos" "reads f' = reads (tag_file t) @ new"
    "\<forall>(q, k) \<in> set new. pos \<le> int q"
  shows "payload_unread (t\<lparr>tag_file := f'\<rparr>)"
  using assms unfolding scan_inv_def payload_unread_def
  by (auto split: if_splits) force+

lemma parseFrameHeader_fail:
  assumes "0 \<le> offset f"
    "ioerr f (nat (offset f)) \<or> length (content f) < nat (offset f) + 10"
  shows "\<exists>err f' new. parseFrameHeader f = (Inl err, f') \<and>
      (err = EIO \<or> err = TruncatedFrameHeader) \<and> reads f' = reads f @ new \<and>
      (\<forall>(q, k) \<in> set new. offset f \<le> int q)"
proof -
  let ?p = "nat (offset f)"
  obtain res f' where rf: "ReadFrom \<lparr>R = f, N = frameHeaderSize\<rparr> = (res, f')"
    by (cases "ReadFrom \<lparr>R = f, N = frameHeaderSize\<rparr>")
  then have rf10: "ReadFrom \<lparr>R = f, N = int 10\<rparr> = (res, f')"
    by (simp add: frameHeaderSize_def)
  from ReadFrom_effect [OF assms(1) _ _ rf10] obtain new where
    new: "reads f' = reads f @ new" "\<forall>(q, k) \<in> set new. offset f \<le> int q"
    by fastforce
  consider (none) "ioerr f ?p \<or> length (content f) \<le> ?p"
    | (short) "\<not> ioerr f ?p" "?p < length (content f)" "length (content f) < ?p + 10"
    using assms(2) by linarith
  then have "res = Inl EIO \<or> (\<exists>bs. res = Inr bs \<and> length bs < 10)"
  proof cases
    case none
    from ReadFrom_none [OF assms(1) _ none, of 10] rf10 show ?thesis
      by (auto split: if_splits)
  next
    case short
    from ReadFrom_short [OF assms(1) _ _ short, of ] rf10 short show ?thesis
      by (auto split: if_splits)
  qed
  then have "\<exists>err. parseFrameHeader f = (Inl err, f') \<and> (err = EIO \<or> err = TruncatedFrameHeader)"
    using rf by (auto simp: parseFrameHeader_def frameHeaderSize_def)
  with new show ?thesis by blast
qed

lemma findAllFrames_loop_fail:
  assumes "0 \<le> p" "p < tagSize"
    "ioerr (tag_file t) (nat p) \<or> length (content (tag_file t)) < nat p + 10"
  shows "\<exists>err f' new. findAllFrames_loop p tagSize t = (t\<lparr>tag_file := f'\<rparr>, Some err) \<and>
      (err = EIO \<or> err = TruncatedFrameHeader) \<and> reads f' = reads (tag_file t) @ new \<and>
      (\<forall>(q, k) \<in> set new. p \<le> int q)"
proof -
  let ?f = "(tag_file t)\<lparr>offset := p\<rparr>"
  have seek: "file_Seek p (tag_file t) = Inr ?f"
    using assms(1) by (simp add: file_Seek_def)
  from parseFrameHeader_fail [of ?f] assms(1,3) obtain err f' new where
    h: "parseFrameHeader ?f = (Inl err, f')" "err = EIO \<or> err = TruncatedFrameHeader"
      "reads f' = reads (tag_file t) @ new" "\<forall>(q, k) \<in> set new. p \<le> int q"
    by auto
  have "findAllFrames_loop p tagSize t = (t\<lparr>tag_file := f'\<rparr>, Some err)"
    by (subst findAllFrames_loop.simps) (simp add: assms(2) seek h(1))
  with h(2,3,4) show ?thesis by blast
qed

lemma scan_payload_unread:
  "scan_inv pos t \<Longrightarrow> 0 \<le> pos \<Longrightarrow> tagSize \<le> 2 ^ 62 \<Longrightarrow>
   payload_unread (fst (findAllFrames_loop pos tagSize t))"
proof (induction "nat (tagSize - pos)" arbitrary: pos t rule: less_induct)
  case less
  consider (finished) "tagSize \<le> pos"
    | (ok) "pos < tagSize" "nat pos + 10 \<le> length (content (tag_file t))"
        "\<not> ioerr (tag_file t) (nat pos)"
    | (fail) "pos < tagSize"
        "ioerr (tag_file t) (nat pos) \<or> length (content (tag_file t)) < nat pos + 10"
    by linarith
  then show ?case
  proof cases
    case finished
    with less.prems show ?thesis
      by (simp add: findAllFrames_loop_done scan_inv_def)
  next
    case ok
    let ?fid = "take 4 (drop (nat pos) (content (tag_file t)))"
    let ?len = "ParseSize (take 4 (drop (nat pos + 4) (content (tag_file t))))"
    let ?t' = "t\<lparr>tag_file := (tag_file t)\<lparr>offset := pos + 10, reads := reads (tag_file t) @ [(nat pos, 10)]\<rparr>,
             framesCoords := (framesCoords t)(?fid \<mapsto> coords_of t ?fid @ [\<lparr>Len = ?len, Pos = pos + 10\<rparr>])\<rparr>"
    have len: "0 \<le> ?len" by (rule ParseSize_nonneg)
    have eq: "findAllFrames_loop pos tagSize t = findAllFrames_loop (pos + 10 + ?len) tagSize ?t'"
      using findAllFrames_loop_step [OF less.prems(2) ok(1) less.prems(3) ok(2,3)]
      by (simp add: Let_def)
    have inv: "scan_inv (pos + 10 + ?len) ?t'"
      using less.prems(1,2) len by (rule scan_inv_step)
    have "payload_unread (fst (findAllFrames_loop (pos + 10 + ?len) tagSize ?t'))"
      using ok(1) len less.prems(2,3) by (intro less.hyps inv) simp_all
    with eq show ?thesis by simp
  next
    case fail
    from findAllFrames_loop_fail [OF less.prems(2) fail] obtain err f' new where
      "findAllFrames_loop pos tagSize t = (t\<lparr>tag_file := f'\<rparr>, Some err)"
      "reads f' = reads (tag_file t) @ new" "\<forall>(q, k) \<in> set new. pos \<le> int q"
      by blast
    then show ?thesis using scan_inv_fail [OF less.prems(1,2), of f' new] by simp
  qed
qed

lemma parseHeader_effect:
  assumes "parseHeader f = (res, f1)" "0 \<le> offset f"
  shows "content f1 = content f \<and> ioerr f1 = ioerr f \<and>
    (\<exists>new. reads f1 = reads f @ new \<and>
       (\<forall>(p, k) \<in> set new. offset f \<le> int p \<and> int p + int k \<le> offset f + 10))"
proof -
  obtain r where r: "ReadFrom \<lparr>R = f, N = tagHeaderSize\<rparr> = (r, f1)"
    using assms by (auto simp: parseHeader_def split: prod.splits sum.splits if_splits)
  then have r10: "ReadFrom \<lparr>R = f, N = int 10\<rparr> = (r, f1)" by (simp add: tagHeaderSize_def)
  from r have "content f1 = content f \<and> ioerr f1 = ioerr f"
    using ReadFrom_loop_source [of "\<lparr>R = f, N = tagHeaderSize\<rparr>" "[]" r f1]
    by (simp add: ReadFrom_def)
  moreover from ReadFrom_effect [OF assms(2) _ _ r10]
  have "\<exists>new. reads f1 = reads f @ new \<and>
       (\<forall>(p, k) \<in> set new. offset f \<le> int p \<and> int p + int k \<le> offset f + 10)"
    by simp
  ultimately show ?thesis by blast
qed

lemma parseHeader_ok:
  assumes "0 \<le> offset f" "nat (offset f) + 10 \<le> length (content f)"
    "\<not> ioerr f (nat (offset f))" "take 3 (drop (nat (offset f)) (content f)) = id3Identifier"
  shows "parseHeader f =
    (Inr (Some \<lparr>Version = of_char (content f ! (nat (offset f) + 3)),
                 FramesSize = ParseSize (take 4 (drop (nat (offset f) + 6) (content f)))\<rparr>),
     f\<lparr>offset := offset f + 10, reads := reads f @ [(nat (offset f), 10)]\<rparr>)"
proof -
  have "ReadFrom \<lparr>R = f, N = tagHeaderSize\<rparr> =
    (Inr (take 10 (drop (nat (offset f)) (content f))),
     f\<lparr>offset := offset f + 10, reads := reads f @ [(nat (offset f), 10)]\<rparr>)"
    using ReadFrom_full [of f 10] assms by (simp add: tagHeaderSize_def)
  then show ?thesis using assms
    by (simp add: parseHeader_def tagHeaderSize_def take_drop add.commute)
qed

lemma parseHeader_FramesSize:
  "parseHeader f = (Inr (Some header), f1) \<Longrightarrow> 0 \<le> FramesSize header \<and> FramesSize header < 2 ^ 28"
  using ParseSize_less [of "take 4 (drop 6 bs)" for bs]
  by (auto simp: parseHeader_def ParseSize_nonneg split: prod.splits sum.splits if_splits)

lemma parseTag_scans:
  assumes "parseHeader f = (Inr (Some header), f1)" "3 \<le> Version header"
  shows "parseTag g (Some f) =
    (let tagSize = tagHeaderSize + FramesSize header;
         (t', err) = findAllFrames_loop tagHeaderSize tagSize (newTag g f1 tagSize (Version header))
     in (Some t', err, Some (tag_file t')))"
proof -
  from parseHeader_FramesSize [OF assms(1)]
  have "int64 (tagHeaderSize + FramesSize header) = tagHeaderSize + FramesSize header"
    by (intro int64_id) (simp_all add: tagHeaderSize_def)
  with assms show ?thesis
    by (simp add: parseTag_def findAllFrames_def newTag_def Let_def)
qed

lemma scan_inv_newTag:
  assumes "parseHeader f = (res, f1)" "offset f = 0" "reads f = []"
  shows "scan_inv 10 (newTag g f1 sz v)"
  using parseHeader_effect [OF assms(1)] assms(2,3)
  by (fastforce simp: scan_inv_def payload_unread_def newTag_def coords_of_def)

lemma parseTag_payload_unread:
  fixes t :: "'fr Tag"
  assumes "offset f = 0" "reads f = []" "parseTag g (Some f) = (Some t, err, f')"
  shows "payload_unread t"
proof (cases "parseHeader f")
  case (Pair res f1)
  show ?thesis
  proof (cases res)
    case (Inl e)
    with Pair assms(3) show ?thesis by (simp add: parseTag_def)
  next
    case (Inr ho)
    show ?thesis
    proof (cases ho)
      case None
      with Pair Inr assms(3) have "t = newTag g f1 0 4" by (simp add: parseTag_def)
      then show ?thesis by (simp add: payload_unread_def newTag_def coords_of_def)
    next
      case (Some header)
      with Pair Inr have ph: "parseHeader f = (Inr (Some header), f1)" by simp
      with assms(3) have v: "3 \<le> Version header"
        by (auto simp: parseTag_def split: if_splits)
      let ?sz = "tagHeaderSize + FramesSize header"
      let ?r = "findAllFrames_loop 10 ?sz (newTag g f1 ?sz (Version header)) :: 'fr Tag \<times> error option"
      have "parseTag g (Some f) = (Some (fst ?r), snd ?r, Some (tag_file (fst ?r)))"
        using parseTag_scans [OF ph v, of g]
        by (simp add: Let_def split_beta tagHeaderSize_def)
      with assms(3) have t: "t = fst ?r"
        by simp
      have "?sz \<le> 2 ^ 62" using parseHeader_FramesSize [OF ph] by (simp add: tagHeaderSize_def)
      with scan_inv_newTag [OF ph assms(1,2)] show ?thesis
        unfolding t by (intro scan_payload_unread) simp_all
    qed
  qed
qed

lemma parseFrameHeader_effect:
  assumes "parseFrameHeader f = (res, f')"
  shows "content f' = content f \<and> ioerr f' = ioerr f \<and>
    (\<forall>e. res = Inl e \<longrightarrow> e = EIO \<or> e = TruncatedFrameHeader)"
proof -
  obtain r where r: "ReadFrom_loop \<lparr>R = f, N = frameHeaderSize\<rparr> [] = (r, f')"
    using assms
    by (auto simp: parseFrameHeader_def ReadFrom_def split: prod.splits sum.splits if_splits)
  from ReadFrom_loop_source [OF r] assms r show ?thesis
    by (auto simp: parseFrameHeader_def ReadFrom_def split: sum.splits if_splits)
qed

lemma scan_bound_pos: "0 \<le> pos \<Longrightarrow> pos < tagSize \<Longrightarrow> 1 \<le> scan_bound pos tagSize"
  by (simp add: scan_bound_def)

lemma scan_bound_advance:
  assumes "0 \<le> pos" "pos < tagSize" "pos' < 0 \<or> pos + 10 \<le> pos'"
  shows "scan_bound pos' tagSize + 1 \<le> scan_bound pos tagSize"
proof (cases "0 \<le> pos' \<and> pos' < tagSize")
  case False
  then have "scan_bound pos' tagSize = 0" by (auto simp: scan_bound_def)
  with scan_bound_pos [OF assms(1,2)] show ?thesis by simp
next
  case True
  with assms(3) have adv: "pos + 10 \<le> pos'" by simp
  have "(tagSize - pos' + 9) div 10 \<le> (tagSize - pos - 10 + 9) div 10"
    using adv by (intro zdiv_mono1) simp_all
  also have "\<dots> = (tagSize - pos + 9) div 10 - 1" by simp
  finally have "(tagSize - pos' + 9) div 10 + 1 \<le> (tagSize - pos + 9) div 10" by simp
  moreover have "0 \<le> (tagSize - pos' + 9) div 10"
    using True by (intro pos_imp_zdiv_nonneg_iff [THEN iffD2]) simp_all
  ultimately show ?thesis using True assms(1,2) by (simp add: scan_bound_def)
qed

lemma findAllFrames_loop_fields:
  "findAllFrames_loop pos tagSize t = (t', err) \<Longrightarrow>
   version t' = version t \<and> ids t' = ids t \<and> originalSize t' = originalSize t \<and>
   frames t' = frames t \<and> content (tag_file t') = content (tag_file t) \<and>
   ioerr (tag_file t') = ioerr (tag_file t)"
proof (induction pos tagSize t rule: findAllFrames_loop.induct)
  case (1 pos tagSize t)
  show ?case
  proof (cases "pos < tagSize")
    case False
    with "1.prems" show ?thesis by (subst (asm) findAllFrames_loop.simps) simp
  next
    case True
    show ?thesis
    proof (cases "file_Seek pos (tag_file t)")
      case (Inl e)
      with True "1.prems" show ?thesis by (subst (asm) findAllFrames_loop.simps) auto
    next
      case (Inr f)
      then have f: "content f = content (tag_file t)" "ioerr f = ioerr (tag_file t)"
        by (auto simp: file_Seek_def split: if_splits)
      obtain res f' where ph: "parseFrameHeader f = (res, f')"
        by (cases "parseFrameHeader f")
      from parseFrameHeader_effect [OF ph] f
      have f': "content f' = content (tag_file t)" "ioerr f' = ioerr (tag_file t)" by simp_all
      show ?thesis
      proof (cases res)
        case (Inl e)
        with True Inr ph "1.prems" f' show ?thesis
          by (subst (asm) findAllFrames_loop.simps) auto
      next
        case header: (Inr header)
        let ?pos1 = "int64 (pos + frameHeaderSize)"
        let ?fc = "\<lparr>Len = FrameSize header, Pos = ?pos1\<rparr>"
        let ?t' = "t\<lparr>tag_file := f',
                      framesCoords := (framesCoords t)(ID header \<mapsto> coords_of t (ID header) @ [?fc])\<rparr>"
        from True Inr ph header "1.prems"
        have "findAllFrames_loop (int64 (?pos1 + FrameSize header)) tagSize ?t' = (t', err)"
          by (subst (asm) findAllFrames_loop.simps) (simp add: Let_def)
        from "1.IH" [OF True Inr ph [symmetric] header refl refl refl refl this] f'
        show ?thesis by simp
      qed
    qed
  qed
qed


section \<open>Decoding through the limited reader\<close>

lemma LimitedReader_Read_effect:
  assumes "LimitedReader_Read n l = (res, l')" "0 \<le> offset (R l)"
  shows "content (R l') = content (R l) \<and> ioerr (R l') = ioerr (R l) \<and>
    offset (R l') = offset (R l) + int (length (fst res)) \<and>
    max 0 (N l') = max 0 (N l) - int (length (fst res)) \<and>
    (reads (R l') = reads (R l) \<and> fst res = [] \<or>
     reads (R l') = reads (R l) @ [(nat (offset (R l)), length (fst res))])"
  using assms
  by (auto simp: LimitedReader_Read_def file_Read_def Let_def min_def
      split: if_splits prod.splits)

lemma run_decoder_effect:
  "0 \<le> offset (R l) \<Longrightarrow> run_decoder d l = (a, l') \<Longrightarrow>
   content (R l') = content (R l) \<and> ioerr (R l') = ioerr (R l) \<and>
   offset (R l) \<le> offset (R l') \<and>
   offset (R l') + max 0 (N l') = offset (R l) + max 0 (N l) \<and>
   (\<exists>new. reads (R l') = reads (R l) @ new \<and>
      (\<forall>(p, n) \<in> set new. offset (R l) \<le> int p \<and> int p + int n \<le> offset (R l')) \<and>
      int (sum_list (map snd new)) = offset (R l') - offset (R l))"
proof (induction d arbitrary: l)
  case (Return x)
  then show ?case by auto
next
  case (ReadReq n k)
  obtain res l1 where lr: "LimitedReader_Read n l = (res, l1)"
    by (cases "LimitedReader_Read n l")
  note e = LimitedReader_Read_effect [OF lr ReadReq.prems(1)]
  from ReadReq.prems(2) lr have run: "run_decoder (k res) l1 = (a, l')" by simp
  from e ReadReq.prems(1) have off1: "0 \<le> offset (R l1)" by simp
  have "k res \<in> range k" by simp
  from ReadReq.IH [OF this off1 run] obtain new where
    ih: "content (R l') = content (R l1)" "ioerr (R l') = ioerr (R l1)"
      "offset (R l1) \<le> offset (R l')"
      "offset (R l') + max 0 (N l') = offset (R l1) + max 0 (N l1)"
      "reads (R l') = reads (R l1) @ new"
      "\<forall>(p, n) \<in> set new. offset (R l1) \<le> int p \<and> int p + int n \<le> offset (R l')"
      "int (sum_list (map snd new)) = offset (R l') - offset (R l1)"
    by blast
  from e consider (none) "reads (R l1) = reads (R l)" "fst res = []"
    | (one) "reads (R l1) = reads (R l) @ [(nat (offset (R l)), length (fst res))]"
    by blast
  then have "\<exists>new'. reads (R l') = reads (R l) @ new' \<and>
      (\<forall>(p, n) \<in> set new'. offset (R l) \<le> int p \<and> int p + int n \<le> offset (R l')) \<and>
      int (sum_list (map snd new')) = offset (R l') - offset (R l)"
  proof cases
    case none
    with ih e show ?thesis by (intro exI [of _ new]) auto
  next
    case one
    with ih e ReadReq.prems(1) show ?thesis
      by (intro exI [of _ "(nat (offset (R l)), length (fst res)) # new"]) auto
  qed
  with ih e show ?case by simp
qed

lemma readFrame_effect:
  assumes "0 \<le> Pos fc" "readFrame d f fc = (res, f')"
  shows "content f' = content f \<and> ioerr f' = ioerr f \<and>
    (\<exists>new. reads f' = reads f @ new \<and>
      (\<forall>(p, n) \<in> set new. Pos fc \<le> int p \<and> int p + int n \<le> Pos fc + max 0 (Len fc)) \<and>
      int (sum_list (map snd new)) \<le> max 0 (Len fc))"
proof -
  let ?l = "\<lparr>R = f\<lparr>offset := Pos fc\<rparr>, N = Len fc\<rparr>"
  obtain l' where run: "run_decoder d ?l = (res, l')" and f': "f' = R l'"
    using assms by (auto simp: readFrame_def file_Seek_def Let_def split: prod.splits)
  have "0 \<le> offset (R ?l)" using assms(1) by simp
  from run_decoder_effect [OF this run] obtain new where
    e: "content (R l') = content f" "ioerr (R l') = ioerr f"
      "Pos fc \<le> offset (R l')"
      "offset (R l') + max 0 (N l') = Pos fc + max 0 (Len fc)"
      "reads (R l') = reads f @ new"
      "\<forall>(p, n) \<in> set new. Pos fc \<le> int p \<and> int p + int n \<le> offset (R l')"
      "int (sum_list (map snd new)) = offset (R l') - Pos fc"
    by auto
  have le: "offset (R l') \<le> Pos fc + max 0 (Len fc)" using e(4) by linarith
  have "\<forall>(p, n) \<in> set new. Pos fc \<le> int p \<and> int p + int n \<le> Pos fc + max 0 (Len fc)"
    using e(6) le by fastforce
  moreover have "int (sum_list (map snd new)) \<le> max 0 (Len fc)" using e(7) le by linarith
  ultimately show ?thesis using e f' by blast
qed

lemma LimitedReader_Read_same:
  assumes "same_source (R l1) (R l2)" "offset (R l1) = offset (R l2)" "N l1 = N l2"
    "LimitedReader_Read n l1 = (res1, l1')" "LimitedReader_Read n l2 = (res2, l2')"
  shows "res1 = res2 \<and> same_source (R l1') (R l2') \<and> offset (R l1') = offset (R l2') \<and>
    N l1' = N l2'"
  using assms
  by (auto simp: same_source_def LimitedReader_Read_def file_Read_def Let_def
      split: if_splits prod.splits)

lemma run_decoder_same:
  "same_source (R l1) (R l2) \<Longrightarrow> offset (R l1) = offset (R l2) \<Longrightarrow> N l1 = N l2 \<Longrightarrow>
   fst (run_decoder d l1) = fst (run_decoder d l2)"
proof (induction d arbitrary: l1 l2)
  case (Return x)
  then show ?case by simp
next
  case (ReadReq n k)
  obtain res1 l1' where r1: "LimitedReader_Read n l1 = (res1, l1')"
    by (cases "LimitedReader_Read n l1")
  obtain res2 l2' where r2: "LimitedReader_Read n l2 = (res2, l2')"
    by (cases "LimitedReader_Read n l2")
  from LimitedReader_Read_same [OF ReadReq.prems r1 r2]
  have s: "res1 = res2" "same_source (R l1') (R l2')" "offset (R l1') = offset (R l2')"
    "N l1' = N l2'"
    by simp_all
  have "k res2 \<in> range k" by simp
  from ReadReq.IH [OF this s(2,3,4)] r1 r2 s(1) show ?case by simp
qed

lemma readFrame_same:
  assumes "0 \<le> Pos fc" "same_source f g"
  shows "fst (readFrame d f fc) = fst (readFrame d g fc)"
proof -
  have "fst (run_decoder d \<lparr>R = f\<lparr>offset := Pos fc\<rparr>, N = Len fc\<rparr>) =
        fst (run_decoder d \<lparr>R = g\<lparr>offset := Pos fc\<rparr>, N = Len fc\<rparr>)"
    using assms(2) by (intro run_decoder_same) (simp_all add: same_source_def)
  then show ?thesis using assms(1)
    by (simp add: readFrame_def file_Seek_def Let_def split_beta)
qed

lemma run_decoder_same_source:
  "run_decoder d l = (a, l') \<Longrightarrow> same_source (R l') (R l)"
proof (induction d arbitrary: l)
  case (Return x)
  then show ?case by (auto simp: same_source_def)
next
  case (ReadReq n k)
  obtain res l1 where lr: "LimitedReader_Read n l = (res, l1)"
    by (cases "LimitedReader_Read n l")
  then have s1: "same_source (R l1) (R l)"
    by (auto simp: same_source_def LimitedReader_Read_def file_Read_def Let_def
        split: if_splits prod.splits)
  from ReadReq.prems lr have run: "run_decoder (k res) l1 = (a, l')" by simp
  have "k res \<in> range k" by simp
  from ReadReq.IH [OF this run] s1 show ?case by (simp add: same_source_def)
qed

lemma readFrame_same_source:
  assumes "readFrame d f fc = (res, f')"
  shows "same_source f' f"
proof -
  let ?rs = "case file_Seek (Pos fc) f of Inl err \<Rightarrow> f | Inr x \<Rightarrow> x"
  have rs: "same_source ?rs f"
    by (auto simp: file_Seek_def same_source_def)
  obtain l' where run: "run_decoder d \<lparr>R = ?rs, N = Len fc\<rparr> = (res, l')" and f': "f' = R l'"
    using assms by (auto simp: readFrame_def Let_def split: prod.splits)
  from run_decoder_same_source [OF run] rs f' show ?thesis
    by (simp add: same_source_def)
qed

lemma frames_of_AddFrame:
  "frames_of (AddFrame fid fr t) fid' = (if fid' = fid then frames_of t fid @ [fr] else frames_of t fid')"
  by (simp add: frames_of_def AddFrame_def)

lemma parseFramesCoordsWithID_loop_fields:
  "parseFramesCoordsWithID_loop impl pf fid fcs t = (t', r) \<Longrightarrow>
   framesCoords t' = framesCoords t \<and> version t' = version t \<and> ids t' = ids t \<and>
   originalSize t' = originalSize t \<and> same_source (tag_file t') (tag_file t) \<and>
   (\<forall>fid'. fid' \<noteq> fid \<longrightarrow> frames t' fid' = frames t fid')"
proof (induction fcs arbitrary: t)
  case Nil
  then show ?case by (auto simp: same_source_def)
next
  case (Cons fc fcs)
  obtain res f' where rf: "readFrame (impl pf) (tag_file t) fc = (res, f')"
    by (cases "readFrame (impl pf) (tag_file t) fc")
  note ss = readFrame_same_source [OF rf]
  show ?case
  proof (cases res)
    case (Inl err)
    with Cons.prems rf ss show ?thesis by (auto simp: same_source_def)
  next
    case (Inr fr)
    with Cons.prems rf
    have "parseFramesCoordsWithID_loop impl pf fid fcs (AddFrame fid fr (t\<lparr>tag_file := f'\<rparr>)) = (t', r)"
      by simp
    from Cons.IH [OF this] ss show ?thesis
      by (auto simp: AddFrame_def same_source_def)
  qed
qed

lemma parseFramesCoordsWithID_loop_store:
  assumes "parseFramesCoordsWithID_loop impl pf fid fcs t = (t', r)" "\<forall>fc \<in> set fcs. 0 \<le> Pos fc"
  shows "\<exists>frs. frames_of t' fid = frames_of t fid @ frs \<and>
      map Inr frs = take (length frs) (map (\<lambda>fc. fst (readFrame (impl pf) (tag_file t) fc)) fcs) \<and>
      (case r of None \<Rightarrow> length frs = length fcs
       | Some err \<Rightarrow> length frs < length fcs \<and>
           fst (readFrame (impl pf) (tag_file t) (fcs ! length frs)) = Inl err)"
  using assms
proof (induction fcs arbitrary: t)
  case Nil
  then show ?case by (intro exI [of _ "[]"]) auto
next
  case (Cons fc fcs)
  obtain res f' where rf: "readFrame (impl pf) (tag_file t) fc = (res, f')"
    by (cases "readFrame (impl pf) (tag_file t) fc")
  note ss = readFrame_same_source [OF rf]
  show ?case
  proof (cases res)
    case (Inl err)
    with Cons.prems rf have "t' = t\<lparr>tag_file := f'\<rparr>" "r = Some err" by simp_all
    with rf Inl show ?thesis by (intro exI [of _ "[]"]) (simp add: frames_of_def)
  next
    case (Inr fr)
    let ?t1 = "AddFrame fid fr (t\<lparr>tag_file := f'\<rparr>)"
    from Inr Cons.prems rf
    have run: "parseFramesCoordsWithID_loop impl pf fid fcs ?t1 = (t', r)" by simp
    from Cons.prems(2) have pos: "\<forall>fc \<in> set fcs. 0 \<le> Pos fc" by simp
    from Cons.IH [OF run pos] obtain frs where
      ih: "frames_of t' fid = frames_of ?t1 fid @ frs"
        "map Inr frs = take (length frs) (map (\<lambda>fc. fst (readFrame (impl pf) (tag_file ?t1) fc)) fcs)"
        "case r of None \<Rightarrow> length frs = length fcs
         | Some err \<Rightarrow> length frs < length fcs \<and>
             fst (readFrame (impl pf) (tag_file ?t1) (fcs ! length frs)) = Inl err"
      by blast
    have tf: "tag_file ?t1 = f'" by (simp add: AddFrame_def)
    have same: "fst (readFrame (impl pf) f' fc') = fst (readFrame (impl pf) (tag_file t) fc')"
      if "fc' \<in> set fcs" for fc'
      using that pos ss by (intro readFrame_same) simp_all
    have m: "map (\<lambda>fc. fst (readFrame (impl pf) f' fc)) fcs =
             map (\<lambda>fc. fst (readFrame (impl pf) (tag_file t) fc)) fcs"
      using same by simp
    have "frames_of (t\<lparr>tag_file := f'\<rparr>) fid = frames_of t fid"
      by (simp add: frames_of_def)
    then have 1: "frames_of t' fid = frames_of t fid @ (fr # frs)"
      using ih(1) by (simp add: frames_of_AddFrame)
    have 2: "map Inr (fr # frs) =
        take (length (fr # frs)) (map (\<lambda>fc. fst (readFrame (impl pf) (tag_file t) fc)) (fc # fcs))"
      using ih(2) rf Inr by (simp add: tf m)
    have 3: "case r of None \<Rightarrow> length (fr # frs) = length (fc # fcs)
       | Some err \<Rightarrow> length (fr # frs) < length (fc # fcs) \<and>
           fst (readFrame (impl pf) (tag_file t) ((fc # fcs) ! length (fr # frs))) = Inl err"
      using ih(3) same by (auto simp: tf split: option.splits)
    from 1 2 3 show ?thesis by blast
  qed
qed

lemma decode_failure_aborts_loop:
  assumes "parseFramesCoordsWithID_loop impl pf fid fcs t = (t', r)"
    "\<forall>fc \<in> set fcs. 0 \<le> Pos fc" "k < length fcs"
    "fst (readFrame (impl pf) (tag_file t) (fcs ! k)) = Inl err"
  shows "\<exists>e frs. r = Some e \<and> frames_of t' fid = frames_of t fid @ frs \<and> length frs \<le> k \<and>
      map Inr frs = take (length frs) (map (\<lambda>fc. fst (readFrame (impl pf) (tag_file t) fc)) fcs) \<and>
      fst (readFrame (impl pf) (tag_file t) (fcs ! length frs)) = Inl e"
proof -
  let ?dec = "\<lambda>fc. fst (readFrame (impl pf) (tag_file t) fc)"
  from parseFramesCoordsWithID_loop_store [OF assms(1,2)] obtain frs where
    s: "frames_of t' fid = frames_of t fid @ frs"
      "map Inr frs = take (length frs) (map ?dec fcs)"
      "case r of None \<Rightarrow> length frs = length fcs
       | Some e \<Rightarrow> length frs < length fcs \<and> ?dec (fcs ! length frs) = Inl e"
    by blast
  have le: "length frs \<le> k"
  proof (rule ccontr)
    assume "\<not> length frs \<le> k"
    then have k: "k < length frs" by simp
    then have "Inr (frs ! k) = map Inr frs ! k" by simp
    also have "\<dots> = take (length frs) (map ?dec fcs) ! k" by (simp only: s(2))
    also have "\<dots> = ?dec (fcs ! k)" using k assms(3) by simp
    also have "\<dots> = Inl err" by (rule assms(4))
    finally show False by simp
  qed
  with assms(3) have "length frs \<noteq> length fcs" by simp
  with s(3) obtain e where "r = Some e" "?dec (fcs ! length frs) = Inl e"
    by (cases r) auto
  with s(1,2) le show ?thesis by blast
qed

lemma findAllFrames_loop_coords_prefix:
  "\<exists>more. coords_of (fst (findAllFrames_loop pos tagSize t)) fid = coords_of t fid @ more"
proof (induction pos tagSize t rule: findAllFrames_loop.induct)
  case (1 pos tagSize t)
  show ?case
  proof (cases "pos < tagSize")
    case False
    then show ?thesis by (subst findAllFrames_loop.simps) simp
  next
    case True
    show ?thesis
    proof (cases "file_Seek pos (tag_file t)")
      case (Inl e)
      with True show ?thesis by (subst findAllFrames_loop.simps) simp
    next
      case (Inr f)
      obtain res f' where ph: "parseFrameHeader f = (res, f')"
        by (cases "parseFrameHeader f")
      show ?thesis
      proof (cases res)
        case (Inl e)
        with True Inr ph show ?thesis
          by (subst findAllFrames_loop.simps) simp
      next
        case header: (Inr header)
        let ?pos1 = "int64 (pos + frameHeaderSize)"
        let ?fc = "\<lparr>Len = FrameSize header, Pos = ?pos1\<rparr>"
        let ?t' = "t\<lparr>tag_file := f',
                      framesCoords := (framesCoords t)(ID header \<mapsto> coords_of t (ID header) @ [?fc])\<rparr>"
        have eq: "findAllFrames_loop pos tagSize t =
            findAllFrames_loop (int64 (?pos1 + FrameSize header)) tagSize ?t'"
          using True Inr ph header by (subst findAllFrames_loop.simps) (simp add: Let_def)
        from "1.IH" [OF True Inr ph [symmetric] header refl refl refl refl]
        obtain more where
          "coords_of (fst (findAllFrames_loop (int64 (?pos1 + FrameSize header)) tagSize ?t')) fid =
             coords_of ?t' fid @ more"
          by blast
        then show ?thesis
          by (cases "fid = ID header") (simp_all add: eq coords_of_upd)
      qed
    qed
  qed
qed

lemma parseFramesCoordsWithID_fields:
  assumes "parseFramesCoordsWithID impl fid t = (t', None)"
  shows "framesCoords t' = (framesCoords t)(fid := None) \<and>
         (\<forall>fid'. fid' \<noteq> fid \<longrightarrow> frames t' fid' = frames t fid')"
proof (cases "framesCoords t fid")
  case None
  with assms have "t' = t" by (simp add: parseFramesCoordsWithID_def)
  with None show ?thesis by auto
next
  case (Some fcs)
  show ?thesis
  proof (cases "findParseFunc t fid")
    case (Inl e)
    with Some assms show ?thesis by (simp add: parseFramesCoordsWithID_def)
  next
    case (Inr po)
    show ?thesis
    proof (cases po)
      case None
      with Some Inr assms show ?thesis by (auto simp: parseFramesCoordsWithID_def)
    next
      case pf: (Some pf)
      obtain t1 r where lp: "parseFramesCoordsWithID_loop impl pf fid fcs t = (t1, r)"
        by (cases "parseFramesCoordsWithID_loop impl pf fid fcs t")
      with Some Inr pf assms have "r = None" "t' = t1\<lparr>framesCoords := (framesCoords t1)(fid := None)\<rparr>"
        by (auto simp: parseFramesCoordsWithID_def split: option.splits)
      with parseFramesCoordsWithID_loop_fields [OF lp] show ?thesis by simp
    qed
  qed
qed

lemma parseFramesCoordsWithID_disjoint:
  assumes "pending_resolved_disjoint t" "parseFramesCoordsWithID impl fid t = (t', None)"
  shows "pending_resolved_disjoint t' \<and> framesCoords t' fid = None"
proof -
  from parseFramesCoordsWithID_fields [OF assms(2)]
  have f: "framesCoords t' = (framesCoords t)(fid := None)"
    "\<And>fid'. fid' \<noteq> fid \<Longrightarrow> frames t' fid' = frames t fid'"
    by simp_all
  have "dom (framesCoords t') \<inter> dom (frames t') = {}"
  proof (rule ccontr)
    assume "dom (framesCoords t') \<inter> dom (frames t') \<noteq> {}"
    then obtain x where x: "framesCoords t' x \<noteq> None" "frames t' x \<noteq> None" by auto
    with f(1) have ne: "x \<noteq> fid" by auto
    with x f have "framesCoords t x \<noteq> None" "frames t x \<noteq> None" by auto
    with assms(1) show False by (auto simp: pending_resolved_disjoint_def)
  qed
  with f(1) show ?thesis by (simp add: pending_resolved_disjoint_def)
qed

lemma parseAllFramesCoords_disjoint:
  "pending_resolved_disjoint t \<Longrightarrow> parseAllFramesCoords impl keys t = (t', None) \<Longrightarrow>
   pending_resolved_disjoint t' \<and> list_all (\<lambda>fid. framesCoords t' fid = None) keys"
proof (induction keys arbitrary: t)
  case Nil
  then show ?case by simp
next
  case (Cons fid keys)
  obtain t1 r where p1: "parseFramesCoordsWithID impl fid t = (t1, r)"
    by (cases "parseFramesCoordsWithID impl fid t")
  with Cons.prems(2) have r: "r = None" and rest: "parseAllFramesCoords impl keys t1 = (t', None)"
    by (auto split: option.splits)
  from parseFramesCoordsWithID_disjoint [OF Cons.prems(1) p1 [unfolded r]]
  have d1: "pending_resolved_disjoint t1" "framesCoords t1 fid = None" by simp_all
  from Cons.IH [OF d1(1) rest]
  have ih: "pending_resolved_disjoint t'" "list_all (\<lambda>fid. framesCoords t' fid = None) keys"
    by simp_all
  have mono: "framesCoords t' x = None" if "framesCoords t1 x = None" for x
    using rest that
  proof (induction keys arbitrary: t1)
    case Nil
    then show ?case by simp
  next
    case (Cons k ks)
    obtain t2 r2 where p2: "parseFramesCoordsWithID impl k t1 = (t2, r2)"
      by (cases "parseFramesCoordsWithID impl k t1")
    with Cons.prems(1) have r2: "r2 = None" and rest2: "parseAllFramesCoords impl ks t2 = (t', None)"
      by (auto split: option.splits)
    from parseFramesCoordsWithID_fields [OF p2 [unfolded r2]] Cons.prems(2)
    have "framesCoords t2 x = None" by simp
    from Cons.IH [OF rest2 this] show ?case .
  qed
  from ih mono [OF d1(2)] show ?case by simp
qed

lemma parseTag_frames_empty:
  fixes t :: "'fr Tag"
  assumes "parseTag g file0 = (Some t, err, f')"
  shows "frames t = Map.empty"
proof (cases file0)
  case None
  with assms show ?thesis by (simp add: parseTag_def)
next
  case (Some f)
  obtain res f1 where ph: "parseHeader f = (res, f1)" by (cases "parseHeader f")
  show ?thesis
  proof (cases res)
    case (Inl e)
    with Some ph assms show ?thesis by (simp add: parseTag_def)
  next
    case (Inr ho)
    show ?thesis
    proof (cases ho)
      case None
      with Some ph Inr assms have "t = newTag g f1 0 4" by (simp add: parseTag_def)
      then show ?thesis by (simp add: newTag_def)
    next
      case header: (Some header)
      let ?t0 = "newTag g f1 (int64 (tagHeaderSize + FramesSize header)) (Version header) :: 'fr Tag"
      from Some ph Inr header assms have "t = fst (findAllFrames ?t0)"
        by (auto simp: parseTag_def Let_def split: if_splits prod.splits)
      moreover have "frames (fst (findAllFrames ?t0)) = frames ?t0"
        using findAllFrames_loop_fields [of tagHeaderSize "originalSize ?t0" ?t0
            "fst (findAllFrames ?t0)" "snd (findAllFrames ?t0)"]
        by (simp add: findAllFrames_def)
      ultimately show ?thesis by (simp add: newTag_def)
    qed
  qed
qed

lemma findAllFrames_loop_coords_nonneg:
  "tagSize \<le> 2 ^ 62 \<Longrightarrow> \<forall>fid. \<forall>fc \<in> set (coords_of t fid). 0 \<le> Pos fc \<and> 0 \<le> Len fc \<Longrightarrow>
   \<forall>fid. \<forall>fc \<in> set (coords_of (fst (findAllFrames_loop pos tagSize t)) fid). 0 \<le> Pos fc \<and> 0 \<le> Len fc"
proof (induction pos tagSize t rule: findAllFrames_loop.induct)
  case (1 pos tagSize t)
  show ?case
  proof (cases "pos < tagSize")
    case False
    with "1.prems" show ?thesis by (subst findAllFrames_loop.simps) simp
  next
    case True
    show ?thesis
    proof (cases "file_Seek pos (tag_file t)")
      case (Inl e)
      with True "1.prems" show ?thesis by (subst findAllFrames_loop.simps) simp
    next
      case (Inr f)
      then have p0: "0 \<le> pos" by (simp add: file_Seek_def split: if_splits)
      obtain res f' where ph: "parseFrameHeader f = (res, f')"
        by (cases "parseFrameHeader f")
      show ?thesis
      proof (cases res)
        case (Inl e)
        with True Inr ph "1.prems" show ?thesis
          by (subst findAllFrames_loop.simps) simp
      next
        case header: (Inr header)
        let ?pos1 = "int64 (pos + frameHeaderSize)"
        let ?fc = "\<lparr>Len = FrameSize header, Pos = ?pos1\<rparr>"
        let ?t' = "t\<lparr>tag_file := f',
                      framesCoords := (framesCoords t)(ID header \<mapsto> coords_of t (ID header) @ [?fc])\<rparr>"
        have eq: "findAllFrames_loop pos tagSize t =
            findAllFrames_loop (int64 (?pos1 + FrameSize header)) tagSize ?t'"
          using True Inr ph header by (subst findAllFrames_loop.simps) (simp add: Let_def)
        have p1: "?pos1 = pos + 10"
          using p0 True "1.prems"(1) by (simp add: frameHeaderSize_def int64_id)
        have sz: "0 \<le> FrameSize header"
          using parseFrameHeader_FrameSize [of f header f'] ph header by simp
        have "\<forall>fid. \<forall>fc \<in> set (coords_of ?t' fid). 0 \<le> Pos fc \<and> 0 \<le> Len fc"
          using "1.prems"(2) p0 p1 sz by (auto simp: coords_of_upd)
        from "1.IH" [OF True Inr ph [symmetric] header refl refl refl refl "1.prems"(1) this]
        show ?thesis by (simp add: eq)
      qed
    qed
  qed
qed

lemma parseTag_coords_nonneg:
  fixes t :: "'fr Tag"
  assumes "parseTag g file0 = (Some t, err, f')"
  shows "\<forall>fid. \<forall>fc \<in> set (coords_of t fid). 0 \<le> Pos fc \<and> 0 \<le> Len fc"
proof (cases file0)
  case None
  with assms show ?thesis by (simp add: parseTag_def)
next
  case (Some f)
  obtain res f1 where ph: "parseHeader f = (res, f1)" by (cases "parseHeader f")
  show ?thesis
  proof (cases res)
    case (Inl e)
    with Some ph assms show ?thesis by (simp add: parseTag_def)
  next
    case (Inr ho)
    show ?thesis
    proof (cases ho)
      case None
      with Some ph Inr assms have "t = newTag g f1 0 4" by (simp add: parseTag_def)
      then show ?thesis by (simp add: newTag_def coords_of_def)
    next
      case header: (Some header)
      from ph Inr header have ph': "parseHeader f = (Inr (Some header), f1)" by simp
      let ?sz = "int64 (tagHeaderSize + FramesSize header)"
      let ?t0 = "newTag g f1 ?sz (Version header) :: 'fr Tag"
      from Some ph Inr header assms have t: "t = fst (findAllFrames_loop tagHeaderSize ?sz ?t0)"
        by (auto simp: parseTag_def findAllFrames_def newTag_def Let_def split: if_splits prod.splits)
      have "?sz = tagHeaderSize + FramesSize header"
        using parseHeader_FramesSize [OF ph'] by (intro int64_id) (simp_all add: tagHeaderSize_def)
      then have "?sz \<le> 2 ^ 62"
        using parseHeader_FramesSize [OF ph'] by (simp add: tagHeaderSize_def)
      moreover have "\<forall>fid. \<forall>fc \<in> set (coords_of ?t0 fid). 0 \<le> Pos fc \<and> 0 \<le> Len fc"
        by (simp add: newTag_def coords_of_def)
      ultimately show ?thesis unfolding t by (rule findAllFrames_loop_coords_nonneg)
    qed
  qed
qed

lemma findAllFrames_loop_errors:
  "findAllFrames_loop pos tagSize t = (t', Some e) \<Longrightarrow>
   e = EINVAL \<or> e = EIO \<or> e = TruncatedFrameHeader"
proof (induction pos tagSize t rule: findAllFrames_loop.induct)
  case (1 pos tagSize t)
  show ?case
  proof (cases "pos < tagSize")
    case False
    with "1.prems" show ?thesis by (subst (asm) findAllFrames_loop.simps) simp
  next
    case True
    show ?thesis
    proof (cases "file_Seek pos (tag_file t)")
      case (Inl e')
      with True "1.prems" show ?thesis
        by (subst (asm) findAllFrames_loop.simps) (auto simp: file_Seek_def split: if_splits)
    next
      case (Inr f)
      obtain res f' where ph: "parseFrameHeader f = (res, f')"
        by (cases "parseFrameHeader f")
      show ?thesis
      proof (cases res)
        case (Inl e')
        with True Inr ph "1.prems" parseFrameHeader_effect [OF ph] show ?thesis
          by (subst (asm) findAllFrames_loop.simps) auto
      next
        case header: (Inr header)
        let ?pos1 = "int64 (pos + frameHeaderSize)"
        let ?fc = "\<lparr>Len = FrameSize header, Pos = ?pos1\<rparr>"
        let ?t' = "t\<lparr>tag_file := f',
                      framesCoords := (framesCoords t)(ID header \<mapsto> coords_of t (ID header) @ [?fc])\<rparr>"
        from True Inr ph header "1.prems"
        have "findAllFrames_loop (int64 (?pos1 + FrameSize header)) tagSize ?t' = (t', Some e)"
          by (subst (asm) findAllFrames_loop.simps) (simp add: Let_def)
        from "1.IH" [OF True Inr ph [symmetric] header refl refl refl refl this]
        show ?thesis .
      qed
    qed
  qed
qed

lemma cursor_next:
  assumes "0 \<le> pos" "pos < 2 ^ 63" "0 \<le> sz" "sz < 2 ^ 28"
  shows "int64 (int64 (pos + frameHeaderSize) + sz) =
    (if pos + 10 + sz < 2 ^ 63 then pos + 10 + sz else pos + 10 + sz - 2 ^ 64)"
proof (cases "pos + 10 < 2 ^ 63")
  case True
  with assms have p1: "int64 (pos + frameHeaderSize) = pos + 10"
    by (simp add: frameHeaderSize_def int64_id)
  show ?thesis
  proof (cases "pos + 10 + sz < 2 ^ 63")
    case True
    with assms have "int64 (pos + 10 + sz) = pos + 10 + sz" by (simp add: int64_id)
    with p1 True show ?thesis by simp
  next
    case False
    with assms have "int64 (pos + 10 + sz) = pos + 10 + sz - 2 ^ 64"
      by (intro int64_wrap) simp_all
    with p1 False show ?thesis by simp
  qed
next
  case False
  with assms have p1: "int64 (pos + frameHeaderSize) = pos + 10 - 2 ^ 64"
    unfolding frameHeaderSize_def by (intro int64_wrap) simp_all
  with assms False have "int64 (pos + 10 - 2 ^ 64 + sz) = pos + 10 - 2 ^ 64 + sz"
    by (intro int64_id) simp_all
  with p1 assms False show ?thesis by simp
qed

lemma findAllFrames_loop_body:
  "findAllFrames_loop pos tagSize t =
     (if pos < tagSize then
        (case findAllFrames_body pos t of
           Inl (pos', t') \<Rightarrow> findAllFrames_loop pos' tagSize t'
         | Inr r \<Rightarrow> r)
      else (t, None))"
  by (subst findAllFrames_loop.simps)
    (simp add: findAllFrames_body_def Let_def split: sum.splits prod.splits)

lemma findAllFrames_body_advance:
  assumes "findAllFrames_body pos t = Inl (pos', t')" "pos < 2 ^ 63"
  shows "0 \<le> pos \<and> (pos' < 0 \<or> pos + 10 \<le> pos') \<and> pos' < 2 ^ 63"
proof -
  from assms(1) obtain f header f' where
    seek: "file_Seek pos (tag_file t) = Inr f" and ph: "parseFrameHeader f = (Inr header, f')" and
    pos': "pos' = int64 (int64 (pos + frameHeaderSize) + FrameSize header)"
    by (auto simp: findAllFrames_body_def Let_def split: sum.splits prod.splits)
  from seek have p0: "0 \<le> pos" by (simp add: file_Seek_def split: if_splits)
  from parseFrameHeader_FrameSize [OF ph]
  have sz: "0 \<le> FrameSize header" "FrameSize header < 2 ^ 28" by simp_all
  from cursor_advance [OF p0 assms(2) sz] int64_range [of "int64 (pos + frameHeaderSize) + FrameSize header"]
  show ?thesis using p0 pos' by simp
qed

lemma findAllFrames_fuel_enough:
  "pos < 2 ^ 63 \<Longrightarrow> scan_bound pos tagSize < n \<Longrightarrow>
   findAllFrames_fuel n pos tagSize t = Some (findAllFrames_loop pos tagSize t)"
proof (induction n arbitrary: pos t)
  case 0
  then show ?case by simp
next
  case (Suc n)
  show ?case
  proof (cases "pos < tagSize")
    case False
    then show ?thesis by (simp add: findAllFrames_loop_done)
  next
    case True
    show ?thesis
    proof (cases "findAllFrames_body pos t")
      case (Inr r)
      with True show ?thesis by (subst findAllFrames_loop_body) simp
    next
      case (Inl c)
      obtain pos' t' where c: "c = (pos', t')" by (cases c)
      from findAllFrames_body_advance [OF Inl [unfolded c] Suc.prems(1)]
      have adv: "0 \<le> pos" "pos' < 0 \<or> pos + 10 \<le> pos'" "pos' < 2 ^ 63" by simp_all
      from scan_bound_advance [OF adv(1) True adv(2)] Suc.prems(2)
      have "scan_bound pos' tagSize < n" by simp
      from Suc.IH [OF adv(3) this]
      have "findAllFrames_fuel n pos' tagSize t' = Some (findAllFrames_loop pos' tagSize t')" .
      with True Inl c show ?thesis by (subst findAllFrames_loop_body) simp
    qed
  qed
qed

lemma sample_parseHeader:
  "parseHeader (open_file sample_bytes) =
     (Inr (Some \<lparr>Version = 4, FramesSize = 56\<rparr>),
      (open_file sample_bytes)\<lparr>offset := 10, reads := [(0, 10)]\<rparr>)"
  using parseHeader_ok [of "open_file sample_bytes"]
  by (simp add: open_file_def sample_bytes_def id3Identifier_def ParseSize_def)

lemma sample_parseTag:
  "parseTag sample_globals (Some (open_file sample_bytes)) =
     (Some sample_tag, None, Some (tag_file sample_tag))"
proof -
  let ?r = "findAllFrames_loop 10 66 sample_scan_start"
  have "parseTag sample_globals (Some (open_file sample_bytes)) =
      (Some (fst ?r), snd ?r, Some (tag_file (fst ?r)))"
    using parseTag_scans [OF sample_parseHeader, of sample_globals]
    by (simp add: tagHeaderSize_def sample_scan_start_def split_beta)
  moreover have "snd ?r = None" by code_simp
  ultimately show ?thesis by (simp add: sample_tag_def)
qed

section \<open>The claims\<close>

text \<open>
  C1. When a header is present, \<open>parseTag\<close> runs the scan from cursor 10 (the first byte
  after the container header) to the tag end \<open>10 + FramesSize\<close>, and the scan stops once the
  cursor reaches the tag end. For a frame whose 10-byte header starts at the cursor \<open>p\<close> and
  can be read, one iteration reads exactly the 10 bytes at \<open>p\<close>, appends the one entry
  \<open>\<lparr>Len = ParseSize (bytes p+4..p+7), Pos = p + 10\<rparr>\<close> to the sequence of the identifier
  (bytes \<open>p..p+3\<close>), and goes on at cursor \<open>p + 10 + Len\<close>. After parsing a freshly opened
  file, no read of the file overlaps the payload of an indexed frame.
\<close>

theorem findAllFrames_records_every_frame:
  fixes t t' :: "'fr Tag"
  shows
    "(parseHeader f = (Inr (Some header), f1) \<and> 3 \<le> Version header \<longrightarrow>
        parseTag g (Some f) =
          (let tagSize = tagHeaderSize + FramesSize header;
               (t1 :: 'fr Tag, err) =
                 findAllFrames_loop tagHeaderSize tagSize (newTag g f1 tagSize (Version header))
           in (Some t1, err, Some (tag_file t1)))) \<and>
     (tagSize \<le> q \<longrightarrow> findAllFrames_loop q tagSize t = (t, None)) \<and>
     (0 \<le> p \<and> p < tagSize \<and> tagSize \<le> 2 ^ 62 \<and>
      nat p + 10 \<le> length (content (tag_file t)) \<and> \<not> ioerr (tag_file t) (nat p) \<longrightarrow>
        findAllFrames_loop p tagSize t =
          (let fid = take 4 (drop (nat p) (content (tag_file t)));
               len = ParseSize (take 4 (drop (nat p + 4) (content (tag_file t))))
           in findAllFrames_loop (p + 10 + len) tagSize
                (t\<lparr>tag_file := (tag_file t)\<lparr>offset := p + 10,
                                              reads := reads (tag_file t) @ [(nat p, 10)]\<rparr>,
                   framesCoords := (framesCoords t)
                     (fid \<mapsto> coords_of t fid @ [\<lparr>Len = len, Pos = p + 10\<rparr>])\<rparr>))) \<and>
     (offset f = 0 \<and> reads f = [] \<and> parseTag g (Some f) = (Some t', err', f') \<longrightarrow>
        payload_unread t')"
proof (intro conjI impI)
  assume "parseHeader f = (Inr (Some header), f1) \<and> 3 \<le> Version header"
  then show "parseTag g (Some f) =
          (let tagSize = tagHeaderSize + FramesSize header;
               (t1 :: 'fr Tag, err) =
                 findAllFrames_loop tagHeaderSize tagSize (newTag g f1 tagSize (Version header))
           in (Some t1, err, Some (tag_file t1)))"
    using parseTag_scans [of f header f1 g] by blast
next
  assume "tagSize \<le> q"
  then show "findAllFrames_loop q tagSize t = (t, None)"
    by (rule findAllFrames_loop_done)
next
  assume "0 \<le> p \<and> p < tagSize \<and> tagSize \<le> 2 ^ 62 \<and>
      nat p + 10 \<le> length (content (tag_file t)) \<and> \<not> ioerr (tag_file t) (nat p)"
  then show "findAllFrames_loop p tagSize t =
          (let fid = take 4 (drop (nat p) (content (tag_file t)));
               len = ParseSize (take 4 (drop (nat p + 4) (content (tag_file t))))
           in findAllFrames_loop (p + 10 + len) tagSize
                (t\<lparr>tag_file := (tag_file t)\<lparr>offset := p + 10,
                                              reads := reads (tag_file t) @ [(nat p, 10)]\<rparr>,
                   framesCoords := (framesCoords t)
                     (fid \<mapsto> coords_of t fid @ [\<lparr>Len = len, Pos = p + 10\<rparr>])\<rparr>))"
    using findAllFrames_loop_step [of p tagSize t] by blast
next
  assume "offset f = 0 \<and> reads f = [] \<and> parseTag g (Some f) = (Some t', err', f')"
  then show "payload_unread t'"
    using parseTag_payload_unread [of f g t' err' f'] by blast
qed

theorem findAllFrames_records_every_frame_witness:
  "parseHeader (open_file sample_bytes) =
     (Inr (Some \<lparr>Version = 4, FramesSize = 56\<rparr>),
      (open_file sample_bytes)\<lparr>offset := 10, reads := [(0, 10)]\<rparr>) \<and>
   parseTag sample_globals (Some (open_file sample_bytes)) =
     (let (t1 :: string Tag, err) = findAllFrames_loop 10 66 sample_scan_start
      in (Some t1, err, Some (tag_file t1))) \<and>
   findAllFrames_loop 66 66 sample_scan_start = (sample_scan_start, None) \<and>
   nat 10 + 10 \<le> length (content (tag_file sample_scan_start)) \<and>
   \<not> ioerr (tag_file sample_scan_start) (nat 10) \<and>
   findAllFrames_loop 10 66 sample_scan_start =
     findAllFrames_loop 26 66
       (sample_scan_start
          \<lparr>tag_file := (tag_file sample_scan_start)\<lparr>offset := 20, reads := [(0, 10), (10, 10)]\<rparr>,
           framesCoords := (framesCoords sample_scan_start)(''TIT2'' \<mapsto> [\<lparr>Len = 6, Pos = 20\<rparr>])\<rparr>) \<and>
   offset (open_file sample_bytes) = 0 \<and> reads (open_file sample_bytes) = [] \<and>
   payload_unread (fst (findAllFrames_loop 10 66 sample_scan_start))"
proof -
  let ?f = "open_file sample_bytes"
  let ?r = "findAllFrames_loop 10 66 sample_scan_start"
  note inst = findAllFrames_records_every_frame
    [of ?f "\<lparr>Version = 4, FramesSize = 56\<rparr>" "?f\<lparr>offset := 10, reads := [(0, 10)]\<rparr>"
       sample_globals 66 66 sample_scan_start 10 "fst ?r" "snd ?r" "Some (tag_file (fst ?r))"]
  have h1: "parseHeader ?f =
     (Inr (Some \<lparr>Version = 4, FramesSize = 56\<rparr>), ?f\<lparr>offset := 10, reads := [(0, 10)]\<rparr>)"
    by (rule sample_parseHeader)
  have c1: "parseTag sample_globals (Some ?f) =
     (let (t1 :: string Tag, err) = ?r in (Some t1, err, Some (tag_file t1)))"
    using inst h1 by (simp add: tagHeaderSize_def sample_scan_start_def)
  have c2: "findAllFrames_loop 66 66 sample_scan_start = (sample_scan_start, None)"
    using inst by simp
  have h3: "nat 10 + 10 \<le> length (content (tag_file sample_scan_start))"
    "\<not> ioerr (tag_file sample_scan_start) (nat 10)"
    by (simp_all add: sample_scan_start_def newTag_def open_file_def sample_bytes_def)
  have c3: "?r = findAllFrames_loop 26 66
       (sample_scan_start
          \<lparr>tag_file := (tag_file sample_scan_start)\<lparr>offset := 20, reads := [(0, 10), (10, 10)]\<rparr>,
           framesCoords := (framesCoords sample_scan_start)(''TIT2'' \<mapsto> [\<lparr>Len = 6, Pos = 20\<rparr>])\<rparr>)"
    using inst h3
    by (simp add: sample_scan_start_def newTag_def open_file_def sample_bytes_def ParseSize_def
        coords_of_def)
  have h4: "offset ?f = 0" "reads ?f = []"
    by (simp_all add: open_file_def)
  have c4: "payload_unread (fst ?r)"
    using inst h4 c1 by (simp add: split_beta)
  from h1 c1 c2 h3 c3 h4 c4 show ?thesis by blast
qed

text \<open>
  C2. A file cut inside the header of its fourth frame (60 of the sample's 66 bytes): the
  parse fails with \<open>TruncatedFrameHeader\<close> and the scan stops, as the claim says. But
  \<^verbatim>\<open>parseTag\<close> ends with \<^verbatim>\<open>return t, err\<close>: the tag is returned together with the error,
  and its index still holds the coordinates of the three frames scanned before the failure.
  The other error paths of \<^verbatim>\<open>parseTag\<close> return \<^verbatim>\<open>nil\<close> for the tag.
\<close>

theorem parseTag_truncated_frame_header_returns_partial_tag:
  "fst (snd (parseTag sample_globals (Some (open_file (take 60 sample_bytes)))
      :: string Tag option \<times> error option \<times> os_File option)) = Some TruncatedFrameHeader \<and>
   map_option (\<lambda>t :: string Tag. (framesCoords t ''TIT2'', framesCoords t ''COMM''))
     (fst (parseTag sample_globals (Some (open_file (take 60 sample_bytes))))) =
     Some (Some [\<lparr>Len = 6, Pos = 20\<rparr>],
           Some [\<lparr>Len = 4, Pos = 36\<rparr>, \<lparr>Len = 4, Pos = 50\<rparr>])"
  by code_simp

text \<open>
  C3, as stated, fails: a header of major version 5 is neither 3 nor 4, and \<open>parseTag\<close>
  accepts it (no error, a tag of version 5 whose frame has been indexed).
\<close>

theorem parseTag_accepts_version_5:
  "fst (parseHeader (open_file sample_v5_bytes)) = Inr (Some \<lparr>Version = 5, FramesSize = 13\<rparr>) \<and>
   (5 :: nat) \<notin> {3, 4} \<and>
   fst (snd (parseTag sample_globals (Some (open_file sample_v5_bytes))
      :: string Tag option \<times> error option \<times> os_File option)) = None \<and>
   map_option (version :: string Tag \<Rightarrow> nat)
     (fst (parseTag sample_globals (Some (open_file sample_v5_bytes)))) = Some 5 \<and>
   map_option (\<lambda>t :: string Tag. framesCoords t ''TIT2'')
     (fst (parseTag sample_globals (Some (open_file sample_v5_bytes)))) =
     Some (Some [\<lparr>Len = 3, Pos = 20\<rparr>])"
  by code_simp

text \<open>
  C3, amended. \<open>parseTag\<close> checks the lower bound only. For a header of version below 3
  it returns no tag and \<open>UnsupportedVersion\<close>, and the file is left as \<open>parseHeader\<close> left
  it: \<open>findAllFrames\<close> is not called, nothing is sought or read after the header. Every
  version from 3 on is accepted and scanned: \<open>parseTag\<close> returns exactly the tag and the
  error of \<open>findAllFrames\<close> on the new tag of that version and of size
  \<open>10 + FramesSize\<close>, the error is never \<open>UnsupportedVersion\<close>, and a version other than 3
  gets the ID table of version 4.
\<close>

theorem parseTag_version_check:
  fixes g :: globals
  assumes "parseHeader f = (Inr (Some header), f1)"
  shows "(Version header < 3 \<longrightarrow>
            parseTag g (Some f) = ((None :: 'fr Tag option), Some UnsupportedVersion, Some f1)) \<and>
         (3 \<le> Version header \<longrightarrow>
            (\<exists>(t :: 'fr Tag) err.
               findAllFrames (newTag g f1 (tagHeaderSize + FramesSize header) (Version header)) =
                 (t, err) \<and>
               parseTag g (Some f) = (Some t, err, Some (tag_file t)) \<and>
               err \<noteq> Some UnsupportedVersion \<and>
               version t = Version header \<and>
               ids t = (if Version header = 3 then V23IDs g else V24IDs g)))"
proof (intro conjI impI)
  assume "Version header < 3"
  with assms show "parseTag g (Some f) = ((None :: 'fr Tag option), Some UnsupportedVersion, Some f1)"
    by (simp add: parseTag_def)
next
  assume v: "3 \<le> Version header"
  let ?sz = "tagHeaderSize + FramesSize header"
  let ?t0 = "newTag g f1 ?sz (Version header) :: 'fr Tag"
  let ?r = "findAllFrames ?t0"
  have r: "?r = findAllFrames_loop tagHeaderSize ?sz ?t0"
    by (simp add: findAllFrames_def newTag_def)
  have 1: "findAllFrames ?t0 = (fst ?r, snd ?r)" by simp
  have 2: "parseTag g (Some f) = (Some (fst ?r), snd ?r, Some (tag_file (fst ?r)))"
    using parseTag_scans [OF assms v, of g] unfolding r by (simp add: Let_def split_beta)
  have 3: "snd ?r \<noteq> Some UnsupportedVersion"
  proof
    assume "snd ?r = Some UnsupportedVersion"
    then have "findAllFrames_loop tagHeaderSize ?sz ?t0 = (fst ?r, Some UnsupportedVersion)"
      unfolding r by (simp add: prod_eq_iff)
    from findAllFrames_loop_errors [OF this] show False by simp
  qed
  have 4: "version (fst ?r) = Version header \<and>
        ids (fst ?r) = (if Version header = 3 then V23IDs g else V24IDs g)"
    using findAllFrames_loop_fields [of tagHeaderSize ?sz ?t0 "fst ?r" "snd ?r"] r
    by (simp add: newTag_def)
  from 1 2 3 4 show "\<exists>(t :: 'fr Tag) err.
               findAllFrames (newTag g f1 (tagHeaderSize + FramesSize header) (Version header)) =
                 (t, err) \<and>
               parseTag g (Some f) = (Some t, err, Some (tag_file t)) \<and>
               err \<noteq> Some UnsupportedVersion \<and>
               version t = Version header \<and>
               ids t = (if Version header = 3 then V23IDs g else V24IDs g)"
    by blast
qed

theorem parseTag_version_check_witness:
  "parseHeader (open_file sample_v2_bytes) =
     (Inr (Some \<lparr>Version = 2, FramesSize = 10\<rparr>),
      (open_file sample_v2_bytes)\<lparr>offset := 10, reads := [(0, 10)]\<rparr>) \<and>
   parseTag sample_globals (Some (open_file sample_v2_bytes)) =
     ((None :: string Tag option), Some UnsupportedVersion,
      Some ((open_file sample_v2_bytes)\<lparr>offset := 10, reads := [(0, 10)]\<rparr>)) \<and>
   parseHeader (open_file sample_v5_bytes) =
     (Inr (Some \<lparr>Version = 5, FramesSize = 13\<rparr>),
      (open_file sample_v5_bytes)\<lparr>offset := 10, reads := [(0, 10)]\<rparr>) \<and>
   snd (findAllFrames sample_v5_scan_start) = None \<and>
   framesCoords (fst (findAllFrames sample_v5_scan_start)) ''TIT2'' = Some [\<lparr>Len = 3, Pos = 20\<rparr>] \<and>
   parseTag sample_globals (Some (open_file sample_v5_bytes)) =
     (Some (fst (findAllFrames sample_v5_scan_start)), None,
      Some (tag_file (fst (findAllFrames sample_v5_scan_start)))) \<and>
   version (fst (findAllFrames sample_v5_scan_start)) = 5 \<and>
   ids (fst (findAllFrames sample_v5_scan_start)) = V24IDs sample_globals"
proof -
  let ?r = "findAllFrames sample_v5_scan_start"
  have h2: "parseHeader (open_file sample_v2_bytes) =
     (Inr (Some \<lparr>Version = 2, FramesSize = 10\<rparr>),
      (open_file sample_v2_bytes)\<lparr>offset := 10, reads := [(0, 10)]\<rparr>)"
    using parseHeader_ok [of "open_file sample_v2_bytes"]
    by (simp add: open_file_def sample_v2_bytes_def id3Identifier_def ParseSize_def)
  have h5: "parseHeader (open_file sample_v5_bytes) =
     (Inr (Some \<lparr>Version = 5, FramesSize = 13\<rparr>),
      (open_file sample_v5_bytes)\<lparr>offset := 10, reads := [(0, 10)]\<rparr>)"
    using parseHeader_ok [of "open_file sample_v5_bytes"]
    by (simp add: open_file_def sample_v5_bytes_def id3Identifier_def ParseSize_def)
  from parseTag_version_check [OF h2, of sample_globals]
  have c2: "parseTag sample_globals (Some (open_file sample_v2_bytes)) =
     ((None :: string Tag option), Some UnsupportedVersion,
      Some ((open_file sample_v2_bytes)\<lparr>offset := 10, reads := [(0, 10)]\<rparr>))"
    by simp
  have e1: "snd ?r = None" by code_simp
  have e2: "framesCoords (fst ?r) ''TIT2'' = Some [\<lparr>Len = 3, Pos = 20\<rparr>]" by code_simp
  from parseTag_version_check [OF h5, of sample_globals]
  obtain t :: "string Tag" and err where
    c: "findAllFrames sample_v5_scan_start = (t, err)"
      "parseTag sample_globals (Some (open_file sample_v5_bytes)) = (Some t, err, Some (tag_file t))"
      "version t = 5" "ids t = V24IDs sample_globals"
    by (auto simp: sample_v5_scan_start_def tagHeaderSize_def)
  from c(1) e1 have t: "t = fst ?r" "err = None" by simp_all
  from h2 c2 h5 e1 e2 c(2,3,4) show ?thesis unfolding t by blast
qed

text \<open>
  C4. The scan never drops or reorders what an identifier's sequence already holds, and a
  frame read at the cursor \<open>p\<close> is put right behind the entries of the earlier frames of its
  identifier: its entry stays in the final index, before those of later frames. When
  \<open>parseFramesCoordsWithID\<close> returns for an identifier that has a decoder, the store holds,
  behind what it held before, one decoded value for each occurrence, in the order of the
  index (the \<open>i\<close>-th new value is what the decoder returns for the \<open>i\<close>-th coordinate).
\<close>

theorem repeated_identifiers_are_kept_in_order:
  fixes t t1 :: "'fr Tag"
  shows
    "(\<exists>more. coords_of (fst (findAllFrames_loop p tagSize t)) fid = coords_of t fid @ more) \<and>
     (0 \<le> p \<and> p < tagSize \<and> tagSize \<le> 2 ^ 62 \<and>
      nat p + 10 \<le> length (content (tag_file t)) \<and> \<not> ioerr (tag_file t) (nat p) \<and>
      fid = take 4 (drop (nat p) (content (tag_file t))) \<longrightarrow>
        (\<exists>more. coords_of (fst (findAllFrames_loop p tagSize t)) fid =
           coords_of t fid @
           \<lparr>Len = ParseSize (take 4 (drop (nat p + 4) (content (tag_file t)))), Pos = p + 10\<rparr> #
           more)) \<and>
     (framesCoords t1 fid = Some fcs \<and> (\<forall>fc \<in> set fcs. 0 \<le> Pos fc) \<and>
      findParseFunc t1 fid = Inr (Some pf) \<and>
      parseFramesCoordsWithID impl fid t1 = (t', None) \<longrightarrow>
        (\<exists>frs. frames_of t' fid = frames_of t1 fid @ frs \<and>
           map Inr frs = map (\<lambda>fc. fst (readFrame (impl pf) (tag_file t1) fc)) fcs))"
proof (intro conjI impI)
  show "\<exists>more. coords_of (fst (findAllFrames_loop p tagSize t)) fid = coords_of t fid @ more"
    by (rule findAllFrames_loop_coords_prefix)
next
  assume a: "0 \<le> p \<and> p < tagSize \<and> tagSize \<le> 2 ^ 62 \<and>
      nat p + 10 \<le> length (content (tag_file t)) \<and> \<not> ioerr (tag_file t) (nat p) \<and>
      fid = take 4 (drop (nat p) (content (tag_file t)))"
  let ?len = "ParseSize (take 4 (drop (nat p + 4) (content (tag_file t))))"
  let ?fc = "\<lparr>Len = ?len, Pos = p + 10\<rparr>"
  let ?t' = "t\<lparr>tag_file := (tag_file t)\<lparr>offset := p + 10, reads := reads (tag_file t) @ [(nat p, 10)]\<rparr>,
               framesCoords := (framesCoords t)(fid \<mapsto> coords_of t fid @ [?fc])\<rparr>"
  have eq: "findAllFrames_loop p tagSize t = findAllFrames_loop (p + 10 + ?len) tagSize ?t'"
    using findAllFrames_loop_step [of p tagSize t] a by (simp add: Let_def)
  obtain more where
    "coords_of (fst (findAllFrames_loop (p + 10 + ?len) tagSize ?t')) fid = coords_of ?t' fid @ more"
    using findAllFrames_loop_coords_prefix by blast
  then have "coords_of (fst (findAllFrames_loop p tagSize t)) fid = coords_of t fid @ ?fc # more"
    by (simp add: eq coords_of_upd)
  then show "\<exists>more. coords_of (fst (findAllFrames_loop p tagSize t)) fid =
           coords_of t fid @ ?fc # more"
    by blast
next
  assume a: "framesCoords t1 fid = Some fcs \<and> (\<forall>fc \<in> set fcs. 0 \<le> Pos fc) \<and>
      findParseFunc t1 fid = Inr (Some pf) \<and>
      parseFramesCoordsWithID impl fid t1 = (t', None)"
  obtain t2 r where lp: "parseFramesCoordsWithID_loop impl pf fid fcs t1 = (t2, r)"
    by (cases "parseFramesCoordsWithID_loop impl pf fid fcs t1")
  with a have r: "r = None" and t': "t' = t2\<lparr>framesCoords := (framesCoords t2)(fid := None)\<rparr>"
    by (auto simp: parseFramesCoordsWithID_def split: option.splits)
  from a have pos: "\<forall>fc \<in> set fcs. 0 \<le> Pos fc" by simp
  from parseFramesCoordsWithID_loop_store [OF lp pos] r obtain frs where
    "frames_of t2 fid = frames_of t1 fid @ frs" "length frs = length fcs"
    "map Inr frs = take (length frs) (map (\<lambda>fc. fst (readFrame (impl pf) (tag_file t1) fc)) fcs)"
    by auto
  then have "frames_of t' fid = frames_of t1 fid @ frs \<and>
           map Inr frs = map (\<lambda>fc. fst (readFrame (impl pf) (tag_file t1) fc)) fcs"
    by (simp add: t' frames_of_def)
  then show "\<exists>frs. frames_of t' fid = frames_of t1 fid @ frs \<and>
           map Inr frs = map (\<lambda>fc. fst (readFrame (impl pf) (tag_file t1) fc)) fcs"
    by blast
qed

theorem repeated_identifiers_are_kept_in_order_witness:
  "coords_of sample_scan_at_40 ''COMM'' = [\<lparr>Len = 4, Pos = 36\<rparr>] \<and>
   nat 40 + 10 \<le> length (content (tag_file sample_scan_at_40)) \<and>
   \<not> ioerr (tag_file sample_scan_at_40) (nat 40) \<and>
   ''COMM'' = take 4 (drop (nat 40) (content (tag_file sample_scan_at_40))) \<and>
   (\<exists>more. coords_of (fst (findAllFrames_loop 40 66 sample_scan_at_40)) ''COMM'' =
      [\<lparr>Len = 4, Pos = 36\<rparr>] @ \<lparr>Len = 4, Pos = 50\<rparr> # more) \<and>
   coords_of (fst (findAllFrames_loop 40 66 sample_scan_at_40)) ''COMM'' =
      [\<lparr>Len = 4, Pos = 36\<rparr>, \<lparr>Len = 4, Pos = 50\<rparr>] \<and>
   framesCoords sample_tag ''COMM'' = Some [\<lparr>Len = 4, Pos = 36\<rparr>, \<lparr>Len = 4, Pos = 50\<rparr>] \<and>
   findParseFunc sample_tag ''COMM'' = Inr (Some parseCommentFrame) \<and>
   parseFramesCoordsWithID sample_impl ''COMM'' sample_tag =
     (fst (parseFramesCoordsWithID sample_impl ''COMM'' sample_tag), None) \<and>
   map (\<lambda>fc. fst (readFrame (sample_impl parseCommentFrame) (tag_file sample_tag) fc))
     [\<lparr>Len = 4, Pos = 36\<rparr>, \<lparr>Len = 4, Pos = 50\<rparr>] = [Inr ''eng1'', Inr ''deu2''] \<and>
   (\<exists>frs. frames_of (fst (parseFramesCoordsWithID sample_impl ''COMM'' sample_tag)) ''COMM'' =
        frames_of sample_tag ''COMM'' @ frs \<and>
      map Inr frs = ([Inr ''eng1'', Inr ''deu2''] :: (error + string) list))"
proof -
  let ?fcs = "[\<lparr>Len = 4, Pos = 36\<rparr>, \<lparr>Len = 4, Pos = 50\<rparr>]"
  let ?r = "parseFramesCoordsWithID sample_impl ''COMM'' sample_tag"
  have h0: "coords_of sample_scan_at_40 ''COMM'' = [\<lparr>Len = 4, Pos = 36\<rparr>]"
    by (simp add: sample_scan_at_40_def coords_of_def)
  have h1: "nat 40 + 10 \<le> length (content (tag_file sample_scan_at_40))"
    "\<not> ioerr (tag_file sample_scan_at_40) (nat 40)"
    "''COMM'' = take 4 (drop (nat 40) (content (tag_file sample_scan_at_40)))"
    by (simp_all add: sample_scan_at_40_def sample_scan_start_def newTag_def open_file_def
        sample_bytes_def)
  have len: "ParseSize (take 4 (drop (nat 40 + 4) (content (tag_file sample_scan_at_40)))) = 4"
    by (simp add: sample_scan_at_40_def sample_scan_start_def newTag_def open_file_def
        sample_bytes_def ParseSize_def)
  note inst1 = repeated_identifiers_are_kept_in_order
    [of 40 66 sample_scan_at_40 "''COMM''" sample_tag ?fcs parseCommentFrame sample_impl "fst ?r"]
  have c1: "\<exists>more. coords_of (fst (findAllFrames_loop 40 66 sample_scan_at_40)) ''COMM'' =
      [\<lparr>Len = 4, Pos = 36\<rparr>] @ \<lparr>Len = 4, Pos = 50\<rparr> # more"
    using inst1 h1 h0 len by simp
  have e1: "coords_of (fst (findAllFrames_loop 40 66 sample_scan_at_40)) ''COMM'' = ?fcs"
    by code_simp
  have h2: "framesCoords sample_tag ''COMM'' = Some ?fcs" by code_simp
  have h3: "findParseFunc sample_tag ''COMM'' = Inr (Some parseCommentFrame)" by code_simp
  have "snd ?r = None" by code_simp
  then have h4: "?r = (fst ?r, None)" by (simp add: prod_eq_iff)
  have e2: "map (\<lambda>fc. fst (readFrame (sample_impl parseCommentFrame) (tag_file sample_tag) fc)) ?fcs =
     [Inr ''eng1'', Inr ''deu2'']"
    by code_simp
  have pos: "\<forall>fc \<in> set ?fcs. 0 \<le> Pos fc" by simp
  from inst1 h2 pos h3 h4
  have "\<exists>frs. frames_of (fst ?r) ''COMM'' = frames_of sample_tag ''COMM'' @ frs \<and>
      map Inr frs =
        map (\<lambda>fc. fst (readFrame (sample_impl parseCommentFrame) (tag_file sample_tag) fc)) ?fcs"
    by blast
  then have c2: "\<exists>frs. frames_of (fst ?r) ''COMM'' = frames_of sample_tag ''COMM'' @ frs \<and>
      map Inr frs = ([Inr ''eng1'', Inr ''deu2''] :: (error + string) list)"
    unfolding e2 .
  from h0 h1 c1 e1 h2 h3 h4 e2 c2 show ?thesis by blast
qed

text \<open>
  C5. A file at position 0 that has no read error where \<open>parseHeader\<close> reads it, and whose
  first bytes are not the magic identifier (a file of fewer than 3 bytes included):
  \<open>parseTag\<close> returns a tag of size 0 and version 4 with an empty index and an empty store,
  and no error. (A file of fewer than 10 bytes is read a second time, at its end.)
\<close>

theorem parseTag_no_header_gives_empty_tag:
  assumes "offset f = 0" "\<not> ioerr f 0" "take 3 (content f) \<noteq> id3Identifier"
    "10 \<le> length (content f) \<or> \<not> ioerr f (length (content f))"
  shows "\<exists>(t :: 'fr Tag) f'. parseTag g (Some f) = (Some t, None, Some f') \<and>
           framesCoords t = Map.empty \<and> frames t = Map.empty \<and>
           originalSize t = 0 \<and> version t = 4"
proof -
  have o: "0 \<le> offset f" "nat (offset f) = 0" using assms(1) by simp_all
  consider (none) "length (content f) = 0"
    | (full) "10 \<le> length (content f)"
    | (short) "0 < length (content f)" "length (content f) < 10"
    by linarith
  then have "\<exists>data f'. ReadFrom \<lparr>R = f, N = tagHeaderSize\<rparr> = (Inr data, f') \<and>
      take 3 data = take 3 (content f)"
  proof cases
    case none
    with ReadFrom_none [OF o(1), of 10] assms(2) o(2) show ?thesis
      by (simp add: tagHeaderSize_def)
  next
    case full
    with ReadFrom_full [OF o(1), of 10] assms(2) o(2) show ?thesis
      by (simp add: tagHeaderSize_def)
  next
    case short
    with assms(4) have "\<not> ioerr f (length (content f))" by simp
    with ReadFrom_short [OF o(1), of 10] assms(2) o(2) short show ?thesis
      by (simp add: tagHeaderSize_def)
  qed
  then obtain data f' where "ReadFrom \<lparr>R = f, N = tagHeaderSize\<rparr> = (Inr data, f')"
    "take 3 data = take 3 (content f)"
    by blast
  with assms(3) have "parseHeader f = (Inr None, f')"
    by (simp add: parseHeader_def)
  then have "parseTag g (Some f) = (Some (newTag g f' 0 4 :: 'fr Tag), None, Some f')"
    by (simp add: parseTag_def)
  then show ?thesis by (auto simp: newTag_def)
qed

theorem parseTag_no_header_gives_empty_tag_witness:
  "offset (open_file sample_wav_bytes) = 0 \<and> \<not> ioerr (open_file sample_wav_bytes) 0 \<and>
   take 3 (content (open_file sample_wav_bytes)) \<noteq> id3Identifier \<and>
   10 \<le> length (content (open_file sample_wav_bytes)) \<and>
   (\<exists>(t :: string Tag) f'.
      parseTag sample_globals (Some (open_file sample_wav_bytes)) = (Some t, None, Some f') \<and>
      framesCoords t = Map.empty \<and> frames t = Map.empty \<and> originalSize t = 0 \<and> version t = 4) \<and>
   offset (open_file ''ID'') = 0 \<and> \<not> ioerr (open_file ''ID'') 0 \<and>
   take 3 (content (open_file ''ID'')) \<noteq> id3Identifier \<and>
   \<not> ioerr (open_file ''ID'') (length (content (open_file ''ID''))) \<and>
   (\<exists>(t :: string Tag) f'.
      parseTag sample_globals (Some (open_file ''ID'')) = (Some t, None, Some f') \<and>
      framesCoords t = Map.empty \<and> frames t = Map.empty \<and> originalSize t = 0 \<and> version t = 4)"
proof -
  have h: "offset (open_file sample_wav_bytes) = 0" "\<not> ioerr (open_file sample_wav_bytes) 0"
    "take 3 (content (open_file sample_wav_bytes)) \<noteq> id3Identifier"
    "10 \<le> length (content (open_file sample_wav_bytes))"
    by (simp_all add: open_file_def sample_wav_bytes_def id3Identifier_def)
  have k: "offset (open_file ''ID'') = 0" "\<not> ioerr (open_file ''ID'') 0"
    "take 3 (content (open_file ''ID'')) \<noteq> id3Identifier"
    "\<not> ioerr (open_file ''ID'') (length (content (open_file ''ID'')))"
    by (simp_all add: open_file_def id3Identifier_def)
  have c1: "\<exists>(t :: string Tag) f'.
      parseTag sample_globals (Some (open_file sample_wav_bytes)) = (Some t, None, Some f') \<and>
      framesCoords t = Map.empty \<and> frames t = Map.empty \<and> originalSize t = 0 \<and> version t = 4"
    using parseTag_no_header_gives_empty_tag [OF h(1,2,3), of sample_globals] h(4) by blast
  have c2: "\<exists>(t :: string Tag) f'.
      parseTag sample_globals (Some (open_file ''ID'')) = (Some t, None, Some f') \<and>
      framesCoords t = Map.empty \<and> frames t = Map.empty \<and> originalSize t = 0 \<and> version t = 4"
    using parseTag_no_header_gives_empty_tag [OF k(1,2,3), of sample_globals] k(4) by blast
  from h c1 k c2 show ?thesis by blast
qed

text \<open>
  C6. When a call of \<open>parseFramesCoordsWithID\<close> for an identifier has returned, the
  identifier is not in the index any more, and a second call for it returns the tag as it
  is: the same store, the same file with the same log of reads.
\<close>

theorem parseFramesCoordsWithID_idempotent:
  assumes "parseFramesCoordsWithID impl fid t = (t1, None)"
  shows "framesCoords t1 fid = None \<and>
         parseFramesCoordsWithID impl fid t1 = (t1, None) \<and>
         frames (fst (parseFramesCoordsWithID impl fid t1)) = frames t1 \<and>
         reads (tag_file (fst (parseFramesCoordsWithID impl fid t1))) = reads (tag_file t1)"
proof -
  have 1: "framesCoords t1 fid = None"
    using assms
    by (auto simp: parseFramesCoordsWithID_def split: option.splits sum.splits prod.splits)
  then have "parseFramesCoordsWithID impl fid t1 = (t1, None)"
    by (simp add: parseFramesCoordsWithID_def)
  with 1 show ?thesis by simp
qed

theorem parseFramesCoordsWithID_idempotent_witness:
  "parseFramesCoordsWithID sample_impl ''COMM'' sample_tag =
     (fst (parseFramesCoordsWithID sample_impl ''COMM'' sample_tag), None) \<and>
   framesCoords sample_tag ''COMM'' = Some [\<lparr>Len = 4, Pos = 36\<rparr>, \<lparr>Len = 4, Pos = 50\<rparr>] \<and>
   framesCoords (fst (parseFramesCoordsWithID sample_impl ''COMM'' sample_tag)) ''COMM'' = None \<and>
   frames (fst (parseFramesCoordsWithID sample_impl ''COMM'' sample_tag)) ''COMM'' =
     Some [''eng1'', ''deu2''] \<and>
   parseFramesCoordsWithID sample_impl ''COMM''
       (fst (parseFramesCoordsWithID sample_impl ''COMM'' sample_tag)) =
     (fst (parseFramesCoordsWithID sample_impl ''COMM'' sample_tag), None)"
proof -
  let ?r = "parseFramesCoordsWithID sample_impl ''COMM'' sample_tag"
  have "snd ?r = None" by code_simp
  then have h: "?r = (fst ?r, None)" by (simp add: prod_eq_iff)
  have c0: "framesCoords sample_tag ''COMM'' = Some [\<lparr>Len = 4, Pos = 36\<rparr>, \<lparr>Len = 4, Pos = 50\<rparr>]"
    by code_simp
  have c1: "frames (fst ?r) ''COMM'' = Some [''eng1'', ''deu2'']" by code_simp
  from parseFramesCoordsWithID_idempotent [OF h] h c0 c1 show ?thesis by blast
qed

text \<open>
  C7. \<open>findParseFunc\<close> depends on the identifier and the tag's ID table only. For a
  non-empty identifier: a first character \<open>T\<close> selects \<open>parseTextFrame\<close>; otherwise the
  identifier of "Attached picture", "Comments" or "Unsynchronised lyrics/text
  transcription" in the tag's table selects the decoder of that kind, in this order; any
  other identifier selects none. For an indexed identifier without decoder, whatever the
  decoders \<open>impl\<close> are, \<open>parseFramesCoordsWithID\<close> only deletes the identifier from the
  index (store and file stay as they are, no error), and every later call for it changes
  nothing.
\<close>

theorem findParseFunc_selects_decoder:
  fixes t t' :: "'fr Tag"
  shows
    "(ids t = ids t' \<longrightarrow> findParseFunc t fid = findParseFunc t' fid) \<and>
     (fid \<noteq> [] \<and> hd fid = CHR ''T'' \<longrightarrow> findParseFunc t fid = Inr (Some parseTextFrame)) \<and>
     (fid \<noteq> [] \<and> hd fid \<noteq> CHR ''T'' \<longrightarrow>
        findParseFunc t fid =
          Inr (if fid = Tag_ID t ''Attached picture'' then Some parsePictureFrame
               else if fid = Tag_ID t ''Comments'' then Some parseCommentFrame
               else if fid = Tag_ID t ''Unsynchronised lyrics/text transcription''
                 then Some parseUnsynchronisedLyricsFrame
               else None)) \<and>
     (findParseFunc t fid = Inr None \<and> framesCoords t fid = Some fcs \<longrightarrow>
        parseFramesCoordsWithID impl fid t =
          (t\<lparr>framesCoords := (framesCoords t)(fid := None)\<rparr>, None) \<and>
        parseFramesCoordsWithID impl fid (t\<lparr>framesCoords := (framesCoords t)(fid := None)\<rparr>) =
          (t\<lparr>framesCoords := (framesCoords t)(fid := None)\<rparr>, None))"
proof (intro conjI impI)
  assume "ids t = ids t'"
  then show "findParseFunc t fid = findParseFunc t' fid"
    by (simp only: findParseFunc_def Tag_ID_def)
next
  assume "fid \<noteq> [] \<and> hd fid = CHR ''T''"
  then show "findParseFunc t fid = Inr (Some parseTextFrame)"
    by (cases fid) (simp_all add: findParseFunc_def)
next
  assume "fid \<noteq> [] \<and> hd fid \<noteq> CHR ''T''"
  then show "findParseFunc t fid =
          Inr (if fid = Tag_ID t ''Attached picture'' then Some parsePictureFrame
               else if fid = Tag_ID t ''Comments'' then Some parseCommentFrame
               else if fid = Tag_ID t ''Unsynchronised lyrics/text transcription''
                 then Some parseUnsynchronisedLyricsFrame
               else None)"
    by (cases fid) (simp_all add: findParseFunc_def)
next
  assume a: "findParseFunc t fid = Inr None \<and> framesCoords t fid = Some fcs"
  then show "parseFramesCoordsWithID impl fid t =
          (t\<lparr>framesCoords := (framesCoords t)(fid := None)\<rparr>, None)"
    by (simp add: parseFramesCoordsWithID_def)
next
  show "parseFramesCoordsWithID impl fid (t\<lparr>framesCoords := (framesCoords t)(fid := None)\<rparr>) =
          (t\<lparr>framesCoords := (framesCoords t)(fid := None)\<rparr>, None)"
    by (simp add: parseFramesCoordsWithID_def)
qed

theorem findParseFunc_selects_decoder_witness:
  "ids sample_tag = ids sample_scan_start \<and>
   findParseFunc sample_tag ''COMM'' = findParseFunc sample_scan_start ''COMM'' \<and>
   hd ''TIT2'' = CHR ''T'' \<and>
   findParseFunc sample_tag ''TIT2'' = Inr (Some parseTextFrame) \<and>
   hd ''COMM'' \<noteq> CHR ''T'' \<and>
   findParseFunc sample_tag ''COMM'' = Inr (Some parseCommentFrame) \<and>
   findParseFunc sample_tag ''XXXX'' = Inr None \<and>
   framesCoords sample_tag ''XXXX'' = Some [\<lparr>Len = 2, Pos = 64\<rparr>] \<and>
   parseFramesCoordsWithID sample_impl ''XXXX'' sample_tag =
     (sample_tag\<lparr>framesCoords := (framesCoords sample_tag)(''XXXX'' := None)\<rparr>, None) \<and>
   parseFramesCoordsWithID sample_impl ''XXXX''
       (sample_tag\<lparr>framesCoords := (framesCoords sample_tag)(''XXXX'' := None)\<rparr>) =
     (sample_tag\<lparr>framesCoords := (framesCoords sample_tag)(''XXXX'' := None)\<rparr>, None)"
proof -
  have h1: "ids sample_tag = ids sample_scan_start"
    using findAllFrames_loop_fields [of 10 66 sample_scan_start sample_tag
        "snd (findAllFrames_loop 10 66 sample_scan_start)"]
    by (simp add: sample_tag_def)
  have h2: "''TIT2'' \<noteq> []" "hd ''TIT2'' = CHR ''T''" "''COMM'' \<noteq> []" "hd ''COMM'' \<noteq> CHR ''T''"
    by simp_all
  have tid: "Tag_ID sample_tag ''Attached picture'' = ''APIC''"
    "Tag_ID sample_tag ''Comments'' = ''COMM''"
    by (simp_all add: Tag_ID_def h1 sample_scan_start_def newTag_def sample_globals_def)
  have h3: "framesCoords sample_tag ''XXXX'' = Some [\<lparr>Len = 2, Pos = 64\<rparr>]"
    by code_simp
  have c1: "findParseFunc sample_tag ''COMM'' = findParseFunc sample_scan_start ''COMM''"
    using findParseFunc_selects_decoder [of sample_tag sample_scan_start "''COMM''"] h1 by blast
  have c2: "findParseFunc sample_tag ''TIT2'' = Inr (Some parseTextFrame)"
    using findParseFunc_selects_decoder [of sample_tag sample_tag "''TIT2''"] h2 by blast
  have c3: "findParseFunc sample_tag ''COMM'' = Inr (Some parseCommentFrame)"
    using findParseFunc_selects_decoder [of sample_tag sample_tag "''COMM''"] h2 tid by simp
  have h4: "findParseFunc sample_tag ''XXXX'' = Inr None"
    using findParseFunc_selects_decoder [of sample_tag sample_tag "''XXXX''"]
    by (simp add: Tag_ID_def h1 sample_scan_start_def newTag_def sample_globals_def)
  have c4: "parseFramesCoordsWithID sample_impl ''XXXX'' sample_tag =
     (sample_tag\<lparr>framesCoords := (framesCoords sample_tag)(''XXXX'' := None)\<rparr>, None) \<and>
   parseFramesCoordsWithID sample_impl ''XXXX''
       (sample_tag\<lparr>framesCoords := (framesCoords sample_tag)(''XXXX'' := None)\<rparr>) =
     (sample_tag\<lparr>framesCoords := (framesCoords sample_tag)(''XXXX'' := None)\<rparr>, None)"
    using findParseFunc_selects_decoder
      [of sample_tag sample_tag "''XXXX''" "[\<lparr>Len = 2, Pos = 64\<rparr>]" sample_impl] h3 h4
    by blast
  from h1 c1 h2 c2 c3 h4 h3 c4 show ?thesis by blast
qed

text \<open>
  C8. Whatever the decoder does, when \<open>readFrame\<close> runs it for a coordinate with a
  non-negative position, every read that reaches the file lies inside the payload range
  \<open>[Pos, Pos + Len)\<close>, and together the reads deliver at most \<open>Len\<close> bytes.
  When the decoding of some occurrence \<open>k\<close> of an indexed identifier fails, the call of
  \<open>parseFramesCoordsWithID\<close> (and with it \<open>parseAllFramesCoords\<close>) ends in the panic of the
  first failing occurrence, which is \<open>k\<close> or an earlier one: the store has received the
  values of the occurrences before it and nothing else, so no value for occurrence \<open>k\<close>,
  and the index is as it was. Every coordinate of a tag that \<open>parseTag\<close> returns has a
  non-negative position and length.
\<close>

theorem readFrame_bounded_and_decode_error_fatal:
  fixes t t0 :: "'fr Tag"
  shows
    "(0 \<le> Pos fc \<and> readFrame d f fc = (res, f') \<longrightarrow>
        (\<exists>new. reads f' = reads f @ new \<and>
           (\<forall>(p, n) \<in> set new. Pos fc \<le> int p \<and> int p + int n \<le> Pos fc + max 0 (Len fc)) \<and>
           int (sum_list (map snd new)) \<le> max 0 (Len fc))) \<and>
     (framesCoords t fid = Some fcs \<and> (\<forall>fc \<in> set fcs. 0 \<le> Pos fc) \<and>
      findParseFunc t fid = Inr (Some pf) \<and> k < length fcs \<and>
      fst (readFrame (impl pf) (tag_file t) (fcs ! k)) = Inl err \<longrightarrow>
        (\<exists>t' e frs.
           parseFramesCoordsWithID impl fid t = (t', Some e) \<and>
           parseAllFramesCoords impl (fid # keys) t = (t', Some e) \<and>
           framesCoords t' = framesCoords t \<and>
           frames_of t' fid = frames_of t fid @ frs \<and> length frs \<le> k \<and>
           map Inr frs =
             take (length frs) (map (\<lambda>fc. fst (readFrame (impl pf) (tag_file t) fc)) fcs) \<and>
           fst (readFrame (impl pf) (tag_file t) (fcs ! length frs)) = Inl e)) \<and>
     (parseTag g file0 = (Some t0, err0, f0) \<longrightarrow>
        (\<forall>fid. \<forall>fc \<in> set (coords_of t0 fid). 0 \<le> Pos fc \<and> 0 \<le> Len fc))"
proof (intro conjI impI)
  assume "0 \<le> Pos fc \<and> readFrame d f fc = (res, f')"
  then show "\<exists>new. reads f' = reads f @ new \<and>
           (\<forall>(p, n) \<in> set new. Pos fc \<le> int p \<and> int p + int n \<le> Pos fc + max 0 (Len fc)) \<and>
           int (sum_list (map snd new)) \<le> max 0 (Len fc)"
    using readFrame_effect [of fc d f res f'] by blast
next
  assume a: "framesCoords t fid = Some fcs \<and> (\<forall>fc \<in> set fcs. 0 \<le> Pos fc) \<and>
      findParseFunc t fid = Inr (Some pf) \<and> k < length fcs \<and>
      fst (readFrame (impl pf) (tag_file t) (fcs ! k)) = Inl err"
  obtain t' r where lp: "parseFramesCoordsWithID_loop impl pf fid fcs t = (t', r)"
    by (cases "parseFramesCoordsWithID_loop impl pf fid fcs t")
  from a decode_failure_aborts_loop [OF lp, of k err] obtain e frs where
    d: "r = Some e" "frames_of t' fid = frames_of t fid @ frs" "length frs \<le> k"
      "map Inr frs = take (length frs) (map (\<lambda>fc. fst (readFrame (impl pf) (tag_file t) fc)) fcs)"
      "fst (readFrame (impl pf) (tag_file t) (fcs ! length frs)) = Inl e"
    by blast
  have 1: "parseFramesCoordsWithID impl fid t = (t', Some e)"
    using a lp d(1) by (simp add: parseFramesCoordsWithID_def)
  then have 2: "parseAllFramesCoords impl (fid # keys) t = (t', Some e)" by simp
  have 3: "framesCoords t' = framesCoords t"
    using parseFramesCoordsWithID_loop_fields [OF lp] by simp
  from 1 2 3 d show "\<exists>t' e frs.
           parseFramesCoordsWithID impl fid t = (t', Some e) \<and>
           parseAllFramesCoords impl (fid # keys) t = (t', Some e) \<and>
           framesCoords t' = framesCoords t \<and>
           frames_of t' fid = frames_of t fid @ frs \<and> length frs \<le> k \<and>
           map Inr frs =
             take (length frs) (map (\<lambda>fc. fst (readFrame (impl pf) (tag_file t) fc)) fcs) \<and>
           fst (readFrame (impl pf) (tag_file t) (fcs ! length frs)) = Inl e"
    by blast
next
  assume "parseTag g file0 = (Some t0, err0, f0)"
  then show "\<forall>fid. \<forall>fc \<in> set (coords_of t0 fid). 0 \<le> Pos fc \<and> 0 \<le> Len fc"
    by (rule parseTag_coords_nonneg)
qed

theorem readFrame_bounded_and_decode_error_fatal_witness:
  "readFrame sample_decoder (tag_file sample_tag) \<lparr>Len = 4, Pos = 36\<rparr> =
     (Inr ''eng1'', snd (readFrame sample_decoder (tag_file sample_tag) \<lparr>Len = 4, Pos = 36\<rparr>)) \<and>
   reads (snd (readFrame sample_decoder (tag_file sample_tag) \<lparr>Len = 4, Pos = 36\<rparr>)) =
     reads (tag_file sample_tag) @ [(36, 4)] \<and>
   (\<exists>new. reads (snd (readFrame sample_decoder (tag_file sample_tag) \<lparr>Len = 4, Pos = 36\<rparr>)) =
        reads (tag_file sample_tag) @ new \<and>
      (\<forall>(p, n) \<in> set new. 36 \<le> int p \<and> int p + int n \<le> 36 + max 0 4) \<and>
      int (sum_list (map snd new)) \<le> max 0 4) \<and>
   framesCoords sample_bad_tag ''TXXX'' =
     Some [\<lparr>Len = 3, Pos = 20\<rparr>, \<lparr>Len = 0, Pos = 33\<rparr>, \<lparr>Len = 2, Pos = 43\<rparr>] \<and>
   findParseFunc sample_bad_tag ''TXXX'' = Inr (Some parseTextFrame) \<and>
   fst (readFrame (sample_impl parseTextFrame) (tag_file sample_bad_tag) \<lparr>Len = 0, Pos = 33\<rparr>) =
     Inl (DecodeError 0) \<and>
   snd (parseFramesCoordsWithID sample_impl ''TXXX'' sample_bad_tag) = Some (DecodeError 0) \<and>
   frames (fst (parseFramesCoordsWithID sample_impl ''TXXX'' sample_bad_tag)) ''TXXX'' =
     Some [''abc''] \<and>
   (\<exists>t' e frs.
      parseFramesCoordsWithID sample_impl ''TXXX'' sample_bad_tag = (t', Some e) \<and>
      parseAllFramesCoords sample_impl [''TXXX''] sample_bad_tag = (t', Some e) \<and>
      framesCoords t' = framesCoords sample_bad_tag \<and>
      frames_of t' ''TXXX'' = frames_of sample_bad_tag ''TXXX'' @ frs \<and> length frs \<le> 1) \<and>
   parseTag sample_globals (Some (open_file sample_bytes)) =
     (Some sample_tag, None, Some (tag_file sample_tag)) \<and>
   list_all (\<lambda>fc. 0 \<le> Pos fc \<and> 0 \<le> Len fc) (coords_of sample_tag ''COMM'')"
proof -
  let ?fc = "\<lparr>Len = 4, Pos = 36\<rparr>"
  let ?rf = "readFrame sample_decoder (tag_file sample_tag) ?fc"
  let ?fcs = "[\<lparr>Len = 3, Pos = 20\<rparr>, \<lparr>Len = 0, Pos = 33\<rparr>, \<lparr>Len = 2, Pos = 43\<rparr>]"
  have "fst ?rf = Inr ''eng1''" by code_simp
  then have h1: "?rf = (Inr ''eng1'', snd ?rf)" by (simp add: prod_eq_iff)
  have e1: "reads (snd ?rf) = reads (tag_file sample_tag) @ [(36, 4)]" by code_simp
  have h2: "framesCoords sample_bad_tag ''TXXX'' = Some ?fcs" by code_simp
  have h3: "\<forall>fc \<in> set ?fcs. 0 \<le> Pos fc" by simp
  have h4: "findParseFunc sample_bad_tag ''TXXX'' = Inr (Some parseTextFrame)" by code_simp
  have h5: "fst (readFrame (sample_impl parseTextFrame) (tag_file sample_bad_tag) \<lparr>Len = 0, Pos = 33\<rparr>) =
     Inl (DecodeError 0)" by code_simp
  have e2: "snd (parseFramesCoordsWithID sample_impl ''TXXX'' sample_bad_tag) = Some (DecodeError 0)"
    by code_simp
  have e3: "frames (fst (parseFramesCoordsWithID sample_impl ''TXXX'' sample_bad_tag)) ''TXXX'' =
     Some [''abc'']" by code_simp
  note inst = readFrame_bounded_and_decode_error_fatal
    [of ?fc sample_decoder "tag_file sample_tag" "Inr ''eng1''" "snd ?rf"
        sample_bad_tag "''TXXX''" ?fcs parseTextFrame 1 sample_impl "DecodeError 0" "[]"
        sample_globals "Some (open_file sample_bytes)" sample_tag None "Some (tag_file sample_tag)"]
  have c1: "\<exists>new. reads (snd ?rf) = reads (tag_file sample_tag) @ new \<and>
      (\<forall>(p, n) \<in> set new. 36 \<le> int p \<and> int p + int n \<le> 36 + max 0 4) \<and>
      int (sum_list (map snd new)) \<le> max 0 4"
    using inst h1 by simp
  have c2: "\<exists>t' e frs.
      parseFramesCoordsWithID sample_impl ''TXXX'' sample_bad_tag = (t', Some e) \<and>
      parseAllFramesCoords sample_impl [''TXXX''] sample_bad_tag = (t', Some e) \<and>
      framesCoords t' = framesCoords sample_bad_tag \<and>
      frames_of t' ''TXXX'' = frames_of sample_bad_tag ''TXXX'' @ frs \<and> length frs \<le> 1"
  proof -
    from inst h2 h3 h4 h5 obtain t' e frs where
      "parseFramesCoordsWithID sample_impl ''TXXX'' sample_bad_tag = (t', Some e)"
      "parseAllFramesCoords sample_impl [''TXXX''] sample_bad_tag = (t', Some e)"
      "framesCoords t' = framesCoords sample_bad_tag"
      "frames_of t' ''TXXX'' = frames_of sample_bad_tag ''TXXX'' @ frs" "length frs \<le> 1"
      by auto
    then show ?thesis by blast
  qed
  have c3: "list_all (\<lambda>fc. 0 \<le> Pos fc \<and> 0 \<le> Len fc) (coords_of sample_tag ''COMM'')"
    using inst sample_parseTag by (simp add: list_all_iff)
  from h1 e1 c1 h2 h4 h5 e2 e3 c2 sample_parseTag c3 show ?thesis by blast
qed

text \<open>
  C9. The tag that \<open>parseTag\<close> returns has no identifier both in the index and in the
  store. A call of \<open>parseFramesCoordsWithID\<close> that returns keeps this, deletes exactly its
  identifier from the index and touches the store at that identifier only; so does a call
  of \<open>parseAllFramesCoords\<close> that returns, for every key it ranged over.
\<close>

theorem pending_and_resolved_stay_apart:
  fixes t0 t :: "'fr Tag"
  shows
    "(parseTag g file0 = (Some t0, err0, f0) \<longrightarrow> pending_resolved_disjoint t0) \<and>
     (pending_resolved_disjoint t \<and> parseFramesCoordsWithID impl fid t = (t', None) \<longrightarrow>
        pending_resolved_disjoint t' \<and> framesCoords t' = (framesCoords t)(fid := None) \<and>
        (\<forall>fid'. fid' \<noteq> fid \<longrightarrow> frames t' fid' = frames t fid')) \<and>
     (pending_resolved_disjoint t \<and> parseAllFramesCoords impl keys t = (t'', None) \<longrightarrow>
        pending_resolved_disjoint t'' \<and> list_all (\<lambda>fid. framesCoords t'' fid = None) keys)"
proof (intro conjI impI)
  assume "parseTag g file0 = (Some t0, err0, f0)"
  then have "frames t0 = Map.empty" by (rule parseTag_frames_empty)
  then show "pending_resolved_disjoint t0" by (simp add: pending_resolved_disjoint_def)
next
  assume a: "pending_resolved_disjoint t \<and> parseFramesCoordsWithID impl fid t = (t', None)"
  then show "pending_resolved_disjoint t'"
    using parseFramesCoordsWithID_disjoint [of t impl fid t'] by blast
  from a show "framesCoords t' = (framesCoords t)(fid := None)"
    using parseFramesCoordsWithID_fields [of impl fid t t'] by blast
  from a show "\<forall>fid'. fid' \<noteq> fid \<longrightarrow> frames t' fid' = frames t fid'"
    using parseFramesCoordsWithID_fields [of impl fid t t'] by blast
next
  assume a: "pending_resolved_disjoint t \<and> parseAllFramesCoords impl keys t = (t'', None)"
  then show "pending_resolved_disjoint t''"
    using parseAllFramesCoords_disjoint [of t impl keys t''] by blast
  from a show "list_all (\<lambda>fid. framesCoords t'' fid = None) keys"
    using parseAllFramesCoords_disjoint [of t impl keys t''] by blast
qed

theorem pending_and_resolved_stay_apart_witness:
  "parseTag sample_globals (Some (open_file sample_bytes)) =
     (Some sample_tag, None, Some (tag_file sample_tag)) \<and>
   pending_resolved_disjoint sample_tag \<and>
   parseFramesCoordsWithID sample_impl ''COMM'' sample_tag =
     (fst (parseFramesCoordsWithID sample_impl ''COMM'' sample_tag), None) \<and>
   pending_resolved_disjoint (fst (parseFramesCoordsWithID sample_impl ''COMM'' sample_tag)) \<and>
   framesCoords (fst (parseFramesCoordsWithID sample_impl ''COMM'' sample_tag)) ''COMM'' = None \<and>
   frames (fst (parseFramesCoordsWithID sample_impl ''COMM'' sample_tag)) ''COMM'' =
     Some [''eng1'', ''deu2''] \<and>
   parseAllFramesCoords sample_impl [''TIT2'', ''COMM'', ''XXXX''] sample_tag =
     (fst (parseAllFramesCoords sample_impl [''TIT2'', ''COMM'', ''XXXX''] sample_tag), None) \<and>
   pending_resolved_disjoint
     (fst (parseAllFramesCoords sample_impl [''TIT2'', ''COMM'', ''XXXX''] sample_tag)) \<and>
   list_all
     (\<lambda>fid. framesCoords
        (fst (parseAllFramesCoords sample_impl [''TIT2'', ''COMM'', ''XXXX''] sample_tag)) fid = None)
     [''TIT2'', ''COMM'', ''XXXX'']"
proof -
  let ?r = "parseFramesCoordsWithID sample_impl ''COMM'' sample_tag"
  let ?keys = "[''TIT2'', ''COMM'', ''XXXX'']"
  let ?a = "parseAllFramesCoords sample_impl ?keys sample_tag"
  note inst = pending_and_resolved_stay_apart
    [of sample_globals "Some (open_file sample_bytes)" sample_tag None "Some (tag_file sample_tag)"
        sample_tag sample_impl "''COMM''" "fst ?r" ?keys "fst ?a"]
  have c1: "pending_resolved_disjoint sample_tag"
    using inst sample_parseTag by blast
  have "snd ?r = None" by code_simp
  then have h2: "?r = (fst ?r, None)" by (simp add: prod_eq_iff)
  have c2: "pending_resolved_disjoint (fst ?r)" "framesCoords (fst ?r) ''COMM'' = None"
    using inst c1 h2 by simp_all
  have e2: "frames (fst ?r) ''COMM'' = Some [''eng1'', ''deu2'']" by code_simp
  have "snd ?a = None" by code_simp
  then have h3: "?a = (fst ?a, None)" by (simp add: prod_eq_iff)
  have c3: "pending_resolved_disjoint (fst ?a)"
    "list_all (\<lambda>fid. framesCoords (fst ?a) fid = None) ?keys"
    using inst c1 h3 by blast+
  from sample_parseTag c1 h2 c2 e2 h3 c3 show ?thesis by blast
qed

text \<open>
  C10. In an iteration where \<^verbatim>\<open>Seek\<close> and the reading of the frame header succeed, the
  decoded frame size is not negative and the loop goes on at the cursor
  \<open>pos + 10 + FrameSize\<close>, at least 10 beyond \<open>pos\<close>; only when this sum leaves the
  \<^verbatim>\<open>int64\<close> range the cursor is \<open>2 ^ 64\<close> less, which is negative, and the next \<^verbatim>\<open>Seek\<close>
  refuses it. So the loop ends after finitely many iterations, whatever the tag size and
  the file: run for more than \<open>\<lceil>(tagSize - pos) / 10\<rceil>\<close> iterations, it has returned, with the
  result of \<open>findAllFrames_loop\<close>; for \<open>findAllFrames\<close> that is one iteration more than
  \<open>\<lceil>(originalSize - 10) / 10\<rceil>\<close>.
\<close>

theorem findAllFrames_terminates:
  fixes t :: "'fr Tag"
  shows
    "(pos < tagSize \<and> pos < 2 ^ 63 \<and> file_Seek pos (tag_file t) = Inr f \<and>
      parseFrameHeader f = (Inr header, f') \<longrightarrow>
        0 \<le> FrameSize header \<and>
        int64 (int64 (pos + frameHeaderSize) + FrameSize header) =
          (if pos + 10 + FrameSize header < 2 ^ 63 then pos + 10 + FrameSize header
           else pos + 10 + FrameSize header - 2 ^ 64) \<and>
        findAllFrames_body pos t =
          Inl (int64 (int64 (pos + frameHeaderSize) + FrameSize header),
               t\<lparr>tag_file := f',
                  framesCoords := (framesCoords t)
                    (ID header \<mapsto> coords_of t (ID header) @
                       [\<lparr>Len = FrameSize header, Pos = int64 (pos + frameHeaderSize)\<rparr>])\<rparr>) \<and>
        findAllFrames_loop pos tagSize t =
          findAllFrames_loop (int64 (int64 (pos + frameHeaderSize) + FrameSize header)) tagSize
            (t\<lparr>tag_file := f',
               framesCoords := (framesCoords t)
                 (ID header \<mapsto> coords_of t (ID header) @
                    [\<lparr>Len = FrameSize header, Pos = int64 (pos + frameHeaderSize)\<rparr>])\<rparr>)) \<and>
     (pos < 2 ^ 63 \<and> scan_bound pos tagSize < n \<longrightarrow>
        findAllFrames_fuel n pos tagSize t = Some (findAllFrames_loop pos tagSize t)) \<and>
     findAllFrames_fuel (Suc (scan_bound tagHeaderSize (originalSize t))) tagHeaderSize
       (originalSize t) t = Some (findAllFrames t)"
proof (intro conjI impI)
  assume a: "pos < tagSize \<and> pos < 2 ^ 63 \<and> file_Seek pos (tag_file t) = Inr f \<and>
      parseFrameHeader f = (Inr header, f')"
  then have p0: "0 \<le> pos" by (simp add: file_Seek_def split: if_splits)
  from a parseFrameHeader_FrameSize [of f header f']
  have sz: "0 \<le> FrameSize header" "FrameSize header < 2 ^ 28" by simp_all
  show "0 \<le> FrameSize header" by (rule sz)
  show "int64 (int64 (pos + frameHeaderSize) + FrameSize header) =
          (if pos + 10 + FrameSize header < 2 ^ 63 then pos + 10 + FrameSize header
           else pos + 10 + FrameSize header - 2 ^ 64)"
    using p0 a sz by (intro cursor_next) simp_all
  show body: "findAllFrames_body pos t =
          Inl (int64 (int64 (pos + frameHeaderSize) + FrameSize header),
               t\<lparr>tag_file := f',
                  framesCoords := (framesCoords t)
                    (ID header \<mapsto> coords_of t (ID header) @
                       [\<lparr>Len = FrameSize header, Pos = int64 (pos + frameHeaderSize)\<rparr>])\<rparr>)"
    using a by (simp add: findAllFrames_body_def Let_def)
  show "findAllFrames_loop pos tagSize t =
          findAllFrames_loop (int64 (int64 (pos + frameHeaderSize) + FrameSize header)) tagSize
            (t\<lparr>tag_file := f',
               framesCoords := (framesCoords t)
                 (ID header \<mapsto> coords_of t (ID header) @
                    [\<lparr>Len = FrameSize header, Pos = int64 (pos + frameHeaderSize)\<rparr>])\<rparr>)"
    using a by (subst findAllFrames_loop_body) (simp add: body)
next
  assume "pos < 2 ^ 63 \<and> scan_bound pos tagSize < n"
  then show "findAllFrames_fuel n pos tagSize t = Some (findAllFrames_loop pos tagSize t)"
    using findAllFrames_fuel_enough [of pos tagSize n t] by blast
next
  show "findAllFrames_fuel (Suc (scan_bound tagHeaderSize (originalSize t))) tagHeaderSize
       (originalSize t) t = Some (findAllFrames t)"
    unfolding findAllFrames_def
    by (rule findAllFrames_fuel_enough) (simp_all add: tagHeaderSize_def)
qed

theorem findAllFrames_terminates_witness:
  "file_Seek 10 (tag_file sample_scan_start) = Inr ((tag_file sample_scan_start)\<lparr>offset := 10\<rparr>) \<and>
   parseFrameHeader ((tag_file sample_scan_start)\<lparr>offset := 10\<rparr>) =
     (Inr \<lparr>ID = ''TIT2'', FrameSize = 6\<rparr>,
      (tag_file sample_scan_start)\<lparr>offset := 20, reads := [(0, 10), (10, 10)]\<rparr>) \<and>
   int64 (int64 (10 + frameHeaderSize) + 6) = 26 \<and>
   findAllFrames_loop 10 66 sample_scan_start =
     findAllFrames_loop 26 66
       (sample_scan_start
          \<lparr>tag_file := (tag_file sample_scan_start)\<lparr>offset := 20, reads := [(0, 10), (10, 10)]\<rparr>,
           framesCoords := (framesCoords sample_scan_start)(''TIT2'' \<mapsto> [\<lparr>Len = 6, Pos = 20\<rparr>])\<rparr>) \<and>
   scan_bound 10 66 = 6 \<and>
   findAllFrames_fuel 7 10 66 sample_scan_start = Some (findAllFrames_loop 10 66 sample_scan_start) \<and>
   Option.is_none (findAllFrames_fuel 3 10 66 sample_scan_start) \<and>
   \<not> Option.is_none (findAllFrames_fuel 4 10 66 sample_scan_start) \<and>
   findAllFrames_fuel (Suc (scan_bound tagHeaderSize (originalSize sample_scan_start))) tagHeaderSize
     (originalSize sample_scan_start) sample_scan_start = Some (findAllFrames sample_scan_start)"
proof -
  let ?f = "(tag_file sample_scan_start)\<lparr>offset := 10\<rparr>"
  let ?f' = "(tag_file sample_scan_start)\<lparr>offset := 20, reads := [(0, 10), (10, 10)]\<rparr>"
  let ?header = "\<lparr>ID = ''TIT2'', FrameSize = 6\<rparr>"
  have h1: "file_Seek 10 (tag_file sample_scan_start) = Inr ?f"
    by (simp add: file_Seek_def)
  have h2: "parseFrameHeader ?f = (Inr ?header, ?f')"
    using parseFrameHeader_ok [of ?f]
    by (simp add: sample_scan_start_def newTag_def open_file_def sample_bytes_def ParseSize_def)
  note inst = findAllFrames_terminates [of 10 66 sample_scan_start ?f ?header ?f' 7]
  have p1: "int64 (10 + frameHeaderSize) = 20"
    by (simp add: int64_def frameHeaderSize_def)
  have c1: "int64 (int64 (10 + frameHeaderSize) + 6) = 26"
    using inst h1 h2 by simp
  have c2: "findAllFrames_loop 10 66 sample_scan_start =
     findAllFrames_loop 26 66
       (sample_scan_start
          \<lparr>tag_file := ?f',
           framesCoords := (framesCoords sample_scan_start)(''TIT2'' \<mapsto> [\<lparr>Len = 6, Pos = 20\<rparr>])\<rparr>)"
    using inst h1 h2 c1 p1
    by (simp add: coords_of_def sample_scan_start_def newTag_def)
  have b: "scan_bound 10 66 = 6" by (simp add: scan_bound_def)
  have c3: "findAllFrames_fuel 7 10 66 sample_scan_start =
      Some (findAllFrames_loop 10 66 sample_scan_start)"
    using inst b by simp
  have e1: "Option.is_none (findAllFrames_fuel 3 10 66 sample_scan_start)" by code_simp
  have e2: "\<not> Option.is_none (findAllFrames_fuel 4 10 66 sample_scan_start)" by code_simp
  have c4: "findAllFrames_fuel (Suc (scan_bound tagHeaderSize (originalSize sample_scan_start)))
     tagHeaderSize (originalSize sample_scan_start) sample_scan_start =
     Some (findAllFrames sample_scan_start)"
    using findAllFrames_terminates [of _ _ sample_scan_start] by blast
  from h1 h2 c1 c2 b c3 e1 e2 c4 show ?thesis by blast
qed

end
